theory Spec2Isabelle
  imports Main
begin

section \<open>Netskope event collector: values, records and state\<close>

text \<open>
  The collector (\<^verbatim>\<open>NetskopeEventCollector.py\<close>) handles JSON values in Python dictionaries.
  The scalar values the engine itself inspects are \<^verbatim>\<open>None\<close>, integers and strings;
  \<^verbatim>\<open>==\<close> on them is structural equality.
\<close>

datatype pyval = PNone | PInt int | PStr string

text \<open>
  Exceptions are values. \<^verbatim>\<open>KeyError\<close> and \<^verbatim>\<open>TypeError\<close> are the two the engine can raise
  by itself; everything the collaborators raise (transport failures, conversion errors) is
  \<open>Exception\<close> with a message, unless it is one of the two.
\<close>

datatype pyerr = KeyError | TypeError | Exception string

text \<open>An event record is a dictionary from field names to values.\<close>

type_synonym event = "string \<rightharpoonup> pyval"

text \<open>\<^verbatim>\<open>d.get(k)\<close>: the value, or \<^verbatim>\<open>None\<close> when the key is absent.\<close>

definition py_get :: "event \<Rightarrow> string \<Rightarrow> pyval" where
  "py_get d k = (case d k of None \<Rightarrow> PNone | Some v \<Rightarrow> v)"

text \<open>
  The last run is one flat dictionary. Under the key \<^verbatim>\<open>event_type\<close> it holds a timestamp,
  under \<^verbatim>\<open>f'{event_type}-ids'\<close> a collection of identifiers, which \<^verbatim>\<open>dedup_by_id\<close> stores
  either as a list (\<^verbatim>\<open>new_events_ids\<close>) or as a set (\<^verbatim>\<open>last_run_ids\<close>).
\<close>

datatype lrval = Ts pyval | Ids "pyval list" | IdSet "pyval set"

type_synonym last_run = "string \<rightharpoonup> lrval"

definition ids_key :: "string \<Rightarrow> string" where
  "ids_key event_type = event_type @ ''-ids''"

text \<open>
  \<^verbatim>\<open>set(x)\<close> on a stored value: a list or a set gives its elements, a string its
  one-character strings, anything else is not iterable.
\<close>

fun py_set :: "lrval \<Rightarrow> pyerr + pyval set" where
  "py_set (Ids xs) = Inr (set xs)"
| "py_set (IdSet s) = Inr s"
| "py_set (Ts (PStr s)) = Inr ((\<lambda>c. PStr [c]) ` set s)"
| "py_set (Ts PNone) = Inl TypeError"
| "py_set (Ts (PInt n)) = Inl TypeError"

text \<open>\<^verbatim>\<open>xs[:n]\<close>: a negative bound counts from the end.\<close>

definition py_slice_to :: "'a list \<Rightarrow> int \<Rightarrow> 'a list" where
  "py_slice_to xs n =
     (if n < 0 then take (length xs - nat (- n)) xs else take (nat n) xs)"

subsection \<open>Constants\<close>

definition ALL_SUPPORTED_EVENT_TYPES :: "string list" where
  "ALL_SUPPORTED_EVENT_TYPES = [''audit'', ''page'', ''network'', ''application'', ''alert'']"

definition MAX_EVENTS_PAGE_SIZE :: int where
  "MAX_EVENTS_PAGE_SIZE = 10000"

definition MAX_SKIP :: int where
  "MAX_SKIP = 50000"

section \<open>The client\<close>

text \<open>
  \<^verbatim>\<open>BaseClient._http_request\<close> is the transport collaborator: it is a parameter \<open>http\<close> of the
  model, a function from the request to the parsed JSON response or the exception raised after
  the transport's retries. The request carries what the three request methods put into it;
  \<^verbatim>\<open>endtime\<close> is read from the clock at each call and is not part of the record. Within one
  cycle the requests of the engine differ in \<open>url_suffix\<close>, \<open>req_type\<close> or \<open>req_skip\<close>, except
  after a page of more than \<^verbatim>\<open>MAX_EVENTS_PAGE_SIZE\<close> records.
\<close>

record request =
  url_suffix :: string
  starttime :: "lrval option"
  req_limit :: int
  req_type :: "string option"
  req_skip :: int

text \<open>
  The response is a JSON object; the fields the engine reads are \<^verbatim>\<open>status\<close> and \<^verbatim>\<open>data\<close>
  (API v1), \<^verbatim>\<open>ok\<close> and \<^verbatim>\<open>result\<close> (API v2). An absent key is \<open>None\<close>.
\<close>

record response =
  r_status :: "pyval option"
  r_data :: "event list option"
  r_ok :: "pyval option"
  r_result :: "event list option"

type_synonym transport = "request \<Rightarrow> pyerr + response"

definition get_events_request_v1 ::
  "transport \<Rightarrow> string \<Rightarrow> last_run \<Rightarrow> int \<Rightarrow> int \<Rightarrow> bool \<Rightarrow> pyerr + response" where
  "get_events_request_v1 http event_type last_run skip limit is_command =
     http \<lparr>url_suffix = ''events'', starttime = last_run event_type,
           req_limit = (if is_command then limit else MAX_EVENTS_PAGE_SIZE),
           req_type = Some event_type, req_skip = skip\<rparr>"

definition get_alerts_request_v1 ::
  "transport \<Rightarrow> last_run \<Rightarrow> int \<Rightarrow> int \<Rightarrow> bool \<Rightarrow> pyerr + response" where
  "get_alerts_request_v1 http last_run skip limit is_command =
     http \<lparr>url_suffix = ''alerts'', starttime = last_run ''alert'',
           req_limit = (if is_command then limit else MAX_EVENTS_PAGE_SIZE),
           req_type = None, req_skip = skip\<rparr>"

definition get_events_request_v2 ::
  "transport \<Rightarrow> string \<Rightarrow> last_run \<Rightarrow> int \<Rightarrow> int \<Rightarrow> bool \<Rightarrow> pyerr + response" where
  "get_events_request_v2 http event_type last_run skip limit is_command =
     http \<lparr>url_suffix = ''events/data/'' @ event_type, starttime = last_run event_type,
           req_limit = (if is_command then limit else MAX_EVENTS_PAGE_SIZE),
           req_type = None, req_skip = skip\<rparr>"

section \<open>Helper functions\<close>

text \<open>
  \<^verbatim>\<open>timestamp_to_datestring\<close> comes from \<^verbatim>\<open>CommonServerPython\<close>; it is a parameter \<open>tds\<close>
  that returns the date string or raises. \<^verbatim>\<open>v * 1000\<close> multiplies an integer, repeats a
  string and raises \<^verbatim>\<open>TypeError\<close> on \<^verbatim>\<open>None\<close>.
\<close>

type_synonym datestring = "pyval \<Rightarrow> pyerr + pyval"

fun py_times_1000 :: "pyval \<Rightarrow> pyerr + pyval" where
  "py_times_1000 (PInt n) = Inr (PInt (n * 1000))"
| "py_times_1000 (PStr s) = Inr (PStr (concat (replicate 1000 s)))"
| "py_times_1000 PNone = Inl TypeError"

text \<open>
  \<^verbatim>\<open>populate_parsing_rule_fields\<close> mutates the event; the model returns the new event. The
  subscript \<^verbatim>\<open>event['timestamp']\<close> raises \<^verbatim>\<open>KeyError\<close> on an absent key, and only
  \<^verbatim>\<open>TypeError\<close> is caught.
\<close>

definition populate_parsing_rule_fields :: "datestring \<Rightarrow> event \<Rightarrow> string \<Rightarrow> pyerr + event" where
  "populate_parsing_rule_fields tds event0 event_type =
     (let event = event0(''source_log_event'' \<mapsto> PStr event_type) in
      case (case event ''timestamp'' of
              None \<Rightarrow> Inl KeyError
            | Some v \<Rightarrow> (case py_times_1000 v of Inl e \<Rightarrow> Inl e | Inr m \<Rightarrow> tds m)) of
        Inr d \<Rightarrow> Inr (event(''_time'' \<mapsto> d))
      | Inl TypeError \<Rightarrow> Inr event
      | Inl e \<Rightarrow> Inl e)"

subsection \<open>dedup_by_id\<close>

text \<open>The local variables of \<^verbatim>\<open>dedup_by_id\<close> that the loop updates.\<close>

record dedup_state =
  last_run_ids :: "pyval set"
  new_events :: "event list"
  new_events_ids :: "pyval list"
  new_last_run :: last_run

text \<open>
  One iteration of the \<^verbatim>\<open>for\<close> loop. \<^verbatim>\<open>last_run[event_type]\<close> raises \<^verbatim>\<open>KeyError\<close> on an
  absent key. The last statement stores a reference to the list or the set; since it is
  executed again at the end of every iteration, the value stored after the last iteration is
  the final content of that list or set.
\<close>

definition dedup_step :: "last_run \<Rightarrow> string \<Rightarrow> dedup_state \<Rightarrow> event \<Rightarrow> pyerr + dedup_state" where
  "dedup_step last_run event_type st event0 =
     (let event_timestamp = py_get event0 ''timestamp'';
          event_id = py_get event0 ''_id'';
          event = event0(''event_id'' \<mapsto> event_id)
      in case last_run event_type of
           None \<Rightarrow> Inl KeyError
         | Some saved \<Rightarrow>
             (let st1 =
                (if saved = Ts event_timestamp then
                   (if event_id \<notin> last_run_ids st
                    then st\<lparr>new_events := new_events st @ [event],
                            last_run_ids := insert event_id (last_run_ids st)\<rparr>
                    else st)
                 else st\<lparr>new_events := new_events st @ [event],
                         new_events_ids := new_events_ids st @ [event_id],
                         new_last_run := (new_last_run st)(event_type \<mapsto> Ts event_timestamp)\<rparr>)
              in Inr (st1\<lparr>new_last_run := (new_last_run st1)(ids_key event_type \<mapsto>
                      (if new_events_ids st1 \<noteq> [] then Ids (new_events_ids st1)
                       else IdSet (last_run_ids st1)))\<rparr>)))"

fun dedup_loop :: "last_run \<Rightarrow> string \<Rightarrow> dedup_state \<Rightarrow> event list \<Rightarrow> pyerr + dedup_state" where
  "dedup_loop last_run event_type st [] = Inr st"
| "dedup_loop last_run event_type st (event # rest) =
     (case dedup_step last_run event_type st event of
        Inl e \<Rightarrow> Inl e
      | Inr st' \<Rightarrow> dedup_loop last_run event_type st' rest)"

text \<open>
  \<^verbatim>\<open>set(last_run.get(f'{event_type}-ids', []))\<close>, and the local variables before the loop.
\<close>

definition saved_ids :: "last_run \<Rightarrow> string \<Rightarrow> pyerr + pyval set" where
  "saved_ids last_run event_type =
     (case last_run (ids_key event_type) of None \<Rightarrow> Inr {} | Some v \<Rightarrow> py_set v)"

definition dedup_init :: "pyval set \<Rightarrow> dedup_state" where
  "dedup_init ids =
     \<lparr>last_run_ids = ids, new_events = [], new_events_ids = [], new_last_run = Map.empty\<rparr>"

definition dedup_by_id ::
  "last_run \<Rightarrow> event list \<Rightarrow> string \<Rightarrow> int \<Rightarrow> pyerr + (event list \<times> last_run)" where
  "dedup_by_id last_run results event_type limit =
     (case saved_ids last_run event_type of
        Inl e \<Rightarrow> Inl e
      | Inr ids \<Rightarrow>
          (let sorted_list = rev results in
           case dedup_loop last_run event_type (dedup_init ids)
                  (py_slice_to sorted_list limit) of
             Inl e \<Rightarrow> Inl e
           | Inr st \<Rightarrow> Inr (new_events st, new_last_run st)))"

section \<open>get_all_events\<close>

text \<open>
  One iteration of the \<^verbatim>\<open>while True\<close> loop of one event type: \<open>Break\<close> leaves the loop with
  the accumulated events, \<open>Continue\<close> goes round again with the new \<^verbatim>\<open>events\<close> and \<^verbatim>\<open>skip\<close>.
\<close>

datatype loop_exit = Break "event list" | Continue "event list" int

definition request_page ::
  "transport \<Rightarrow> string \<Rightarrow> string \<Rightarrow> last_run \<Rightarrow> int \<Rightarrow> int \<Rightarrow> bool \<Rightarrow> pyerr + event list option" where
  "request_page http api_version event_type last_run skip limit is_command =
     (if api_version = ''v1'' then
        (case (if event_type = ''alert''
               then get_alerts_request_v1 http last_run skip limit is_command
               else get_events_request_v1 http event_type last_run skip limit is_command) of
           Inl e \<Rightarrow> Inl e
         | Inr response \<Rightarrow>
             (if r_status response \<noteq> Some (PStr ''success'') then Inr None
              else Inr (Some (case r_data response of None \<Rightarrow> [] | Some d \<Rightarrow> d))))
      else
        (case get_events_request_v2 http event_type last_run skip limit is_command of
           Inl e \<Rightarrow> Inl e
         | Inr response \<Rightarrow>
             (if r_ok response \<noteq> Some (PInt 1) then Inr None
              else Inr (Some (case r_result response of None \<Rightarrow> [] | Some d \<Rightarrow> d)))))"

definition while_body ::
  "transport \<Rightarrow> string \<Rightarrow> string \<Rightarrow> last_run \<Rightarrow> int \<Rightarrow> bool \<Rightarrow> event list \<Rightarrow> int
     \<Rightarrow> pyerr + loop_exit" where
  "while_body http api_version event_type last_run limit is_command events skip =
     (case request_page http api_version event_type last_run skip limit is_command of
        Inl e \<Rightarrow> Inl e
      | Inr None \<Rightarrow> Inr (Break events)
      | Inr (Some results) \<Rightarrow>
          (let events1 = events @ results;
               skip1 = (if int (length results) = MAX_EVENTS_PAGE_SIZE
                        then skip + MAX_EVENTS_PAGE_SIZE else skip)
           in if int (length results) < MAX_EVENTS_PAGE_SIZE \<or> results = []
                 \<or> int (length events1) = MAX_SKIP
              then Inr (Break events1)
              else Inr (Continue events1 skip1)))"

text \<open>The loop itself may run forever; not returning is the value \<open>None\<close>.\<close>

partial_function (option) while_loop ::
  "transport \<Rightarrow> string \<Rightarrow> string \<Rightarrow> last_run \<Rightarrow> int \<Rightarrow> bool \<Rightarrow> event list \<Rightarrow> int
     \<Rightarrow> (pyerr + event list) option" where
  "while_loop http api_version event_type last_run limit is_command events skip =
     (case while_body http api_version event_type last_run limit is_command events skip of
        Inl e \<Rightarrow> Some (Inl e)
      | Inr (Break events1) \<Rightarrow> Some (Inr events1)
      | Inr (Continue events1 skip1) \<Rightarrow>
          while_loop http api_version event_type last_run limit is_command events1 skip1)"

fun populate_all :: "datestring \<Rightarrow> event list \<Rightarrow> string \<Rightarrow> pyerr + event list" where
  "populate_all tds [] event_type = Inr []"
| "populate_all tds (event # rest) event_type =
     (case populate_parsing_rule_fields tds event event_type of
        Inl e \<Rightarrow> Inl e
      | Inr event1 \<Rightarrow>
          (case populate_all tds rest event_type of
             Inl e \<Rightarrow> Inl e
           | Inr rest1 \<Rightarrow> Inr (event1 # rest1)))"

text \<open>
  The \<^verbatim>\<open>if events:\<close> block of one event type, on the pair
  \<^verbatim>\<open>(events_result, new_last_run)\<close> of \<^verbatim>\<open>get_all_events\<close>. The debug message subscripts
  \<^verbatim>\<open>new_last_run[event_type]\<close> and \<^verbatim>\<open>new_last_run[f"{event_type}-ids"]\<close>.
\<close>

definition process_events ::
  "datestring \<Rightarrow> last_run \<Rightarrow> int \<Rightarrow> string \<Rightarrow> event list \<Rightarrow> event list \<times> last_run
     \<Rightarrow> pyerr + (event list \<times> last_run)" where
  "process_events tds last_run limit event_type events acc =
     (if events = [] then Inr acc
      else
        (case dedup_by_id last_run events event_type limit of
           Inl e \<Rightarrow> Inl e
         | Inr (final_events, partial_last_run) \<Rightarrow>
             (let new_last_run1 = snd acc ++ partial_last_run in
              if new_last_run1 event_type = None \<or> new_last_run1 (ids_key event_type) = None
              then Inl KeyError
              else
                (case populate_all tds final_events event_type of
                   Inl e \<Rightarrow> Inl e
                 | Inr final_events1 \<Rightarrow> Inr (fst acc @ final_events1, new_last_run1)))))"

fun for_event_types ::
  "transport \<Rightarrow> datestring \<Rightarrow> last_run \<Rightarrow> int \<Rightarrow> string \<Rightarrow> bool \<Rightarrow> string list
     \<Rightarrow> event list \<times> last_run \<Rightarrow> (pyerr + (event list \<times> last_run)) option" where
  "for_event_types http tds last_run limit api_version is_command [] acc = Some (Inr acc)"
| "for_event_types http tds last_run limit api_version is_command (event_type # rest) acc =
     (case while_loop http api_version event_type last_run limit is_command [] 0 of
        None \<Rightarrow> None
      | Some (Inl e) \<Rightarrow> Some (Inl e)
      | Some (Inr events) \<Rightarrow>
          (case process_events tds last_run limit event_type events acc of
             Inl e \<Rightarrow> Some (Inl e)
           | Inr acc1 \<Rightarrow>
               for_event_types http tds last_run limit api_version is_command rest acc1))"

definition get_all_events ::
  "transport \<Rightarrow> datestring \<Rightarrow> last_run \<Rightarrow> int option \<Rightarrow> string \<Rightarrow> bool
     \<Rightarrow> (pyerr + (event list \<times> last_run)) option" where
  "get_all_events http tds last_run limit api_version is_command =
     for_event_types http tds last_run
       (case limit of None \<Rightarrow> MAX_EVENTS_PAGE_SIZE | Some l \<Rightarrow> l)
       api_version is_command ALL_SUPPORTED_EVENT_TYPES ([], Map.empty)"

section \<open>Notions used in the statements\<close>

text \<open>
  The timestamp and the identifier that \<^verbatim>\<open>dedup_by_id\<close> reads from a record
  (\<^verbatim>\<open>event.get('timestamp')\<close>, \<^verbatim>\<open>event.get('_id')\<close>), the record after
  \<^verbatim>\<open>event['event_id'] = event_id\<close>, and the test of the first branch: the record's
  timestamp equals the saved one.
\<close>

definition timestamp_of :: "event \<Rightarrow> pyval" where
  "timestamp_of e = py_get e ''timestamp''"

definition id_of :: "event \<Rightarrow> pyval" where
  "id_of e = py_get e ''_id''"

definition with_event_id :: "event \<Rightarrow> event" where
  "with_event_id e = e(''event_id'' \<mapsto> id_of e)"

definition is_tie :: "lrval \<Rightarrow> event \<Rightarrow> bool" where
  "is_tie saved e = (saved = Ts (timestamp_of e))"

text \<open>The records the loop of \<^verbatim>\<open>dedup_by_id\<close> goes through: \<^verbatim>\<open>sorted_list[:limit]\<close>.\<close>

definition processed :: "event list \<Rightarrow> int \<Rightarrow> event list" where
  "processed results limit = py_slice_to (rev results) limit"

text \<open>
  The state after one iteration that does not raise, as a function of the saved timestamp
  \<^verbatim>\<open>last_run[event_type]\<close>.
\<close>

definition dedup_next :: "lrval \<Rightarrow> string \<Rightarrow> dedup_state \<Rightarrow> event \<Rightarrow> dedup_state" where
  "dedup_next saved event_type st e =
     (if is_tie saved e then
        st\<lparr>new_events := (if id_of e \<in> last_run_ids st then new_events st
                          else new_events st @ [with_event_id e]),
           last_run_ids := insert (id_of e) (last_run_ids st),
           new_last_run := (new_last_run st)(ids_key event_type \<mapsto>
              (if new_events_ids st \<noteq> [] then Ids (new_events_ids st)
               else IdSet (insert (id_of e) (last_run_ids st))))\<rparr>
      else
        st\<lparr>new_events := new_events st @ [with_event_id e],
           new_events_ids := new_events_ids st @ [id_of e],
           new_last_run := (new_last_run st)(event_type \<mapsto> Ts (timestamp_of e),
              ids_key event_type \<mapsto> Ids (new_events_ids st @ [id_of e]))\<rparr>)"

text \<open>A record with just an identifier and a timestamp, for the concrete scenarios.\<close>

definition mk_event :: "string \<Rightarrow> int \<Rightarrow> event" where
  "mk_event i t = [''_id'' \<mapsto> PStr i, ''timestamp'' \<mapsto> PInt t]"

text \<open>A seeded checkpoint of one event type: a timestamp and a list of identifiers.\<close>

definition checkpoint :: "string \<Rightarrow> int \<Rightarrow> string list \<Rightarrow> last_run" where
  "checkpoint event_type t ids =
     [event_type \<mapsto> Ts (PInt t), ids_key event_type \<mapsto> Ids (map PStr ids)]"

text \<open>
  The record as \<^verbatim>\<open>get_all_events\<close> returns it when nothing raises: with \<^verbatim>\<open>event_id\<close>,
  \<^verbatim>\<open>source_log_event\<close> and, when the date string \<open>d\<close> could be computed, \<^verbatim>\<open>_time\<close>.
\<close>

definition tagged :: "string \<Rightarrow> event \<Rightarrow> event" where
  "tagged event_type e = (with_event_id e)(''source_log_event'' \<mapsto> PStr event_type)"

definition delivered_as :: "string \<Rightarrow> pyval \<Rightarrow> event \<Rightarrow> event" where
  "delivered_as event_type d e = (tagged event_type e)(''_time'' \<mapsto> d)"

text \<open>Successful responses of the two API versions.\<close>

definition v1_page :: "event list \<Rightarrow> response" where
  "v1_page evs =
     \<lparr>r_status = Some (PStr ''success''), r_data = Some evs, r_ok = None, r_result = None\<rparr>"

definition v2_page :: "event list \<Rightarrow> response" where
  "v2_page evs = \<lparr>r_status = None, r_data = None, r_ok = Some (PInt 1), r_result = Some evs\<rparr>"

text \<open>
  A remote that holds the records \<open>evs\<close> for the event type \<open>event_type\<close> and nothing for the
  other event types: it answers the first request (offset 0) for that event type with one
  successful page of \<open>evs\<close>, and every other request with a successful empty page.
\<close>

definition single_page :: "string \<Rightarrow> string \<Rightarrow> event list \<Rightarrow> transport" where
  "single_page api_version event_type evs req =
     (if api_version = ''v1'' then
        Inr (v1_page
          (if (if event_type = ''alert'' then url_suffix req = ''alerts''
               else url_suffix req = ''events'' \<and> req_type req = Some event_type)
              \<and> req_skip req = 0
           then evs else []))
      else
        Inr (v2_page
          (if url_suffix req = ''events/data/'' @ event_type \<and> req_skip req = 0
           then evs else [])))"

text \<open>A date-string collaborator for the closed scenarios: it accepts integers only.\<close>

definition sample_datestring :: datestring where
  "sample_datestring v =
     (case v of PInt n \<Rightarrow> Inr (PStr ''1970-01-01T00:00:00.000Z'')
      | _ \<Rightarrow> Inl (Exception ''ValueError''))"

text \<open>The limit of \<^verbatim>\<open>get_all_events\<close> after \<^verbatim>\<open>if limit is None: limit = MAX_EVENTS_PAGE_SIZE\<close>.\<close>

definition effective_limit :: "int option \<Rightarrow> int" where
  "effective_limit limit = (case limit of None \<Rightarrow> MAX_EVENTS_PAGE_SIZE | Some l \<Rightarrow> l)"

text \<open>
  A remote of API version 2 that holds the records \<open>evs\<close>, newest first, for every event type
  and serves the window the request asks for: \<open>req_limit\<close> records from the offset \<open>req_skip\<close>.
\<close>

definition windowed :: "event list \<Rightarrow> transport" where
  "windowed evs req = Inr (v2_page (take (nat (req_limit req)) (drop (nat (req_skip req)) evs)))"

section \<open>Successive cycles\<close>

text \<open>
  A run of fetch cycles, one transport behaviour per cycle: the last run that
  \<^verbatim>\<open>get_all_events\<close> returns is handed to the next cycle as it is (\<^verbatim>\<open>main\<close> stores it
  with \<^verbatim>\<open>setLastRun\<close>; the seeding of absent event types that \<^verbatim>\<open>main\<close> does before a
  cycle is not part of the run). The result is the list of the delivered batches and the
  final last run; the first cycle that raises ends the run with its exception.
\<close>

fun fetch_cycles ::
  "transport list \<Rightarrow> datestring \<Rightarrow> last_run \<Rightarrow> int option \<Rightarrow> string \<Rightarrow> bool
     \<Rightarrow> (pyerr + (event list list \<times> last_run)) option" where
  "fetch_cycles [] tds last_run limit api_version is_command = Some (Inr ([], last_run))"
| "fetch_cycles (http # rest) tds last_run limit api_version is_command =
     (case get_all_events http tds last_run limit api_version is_command of
        None \<Rightarrow> None
      | Some (Inl e) \<Rightarrow> Some (Inl e)
      | Some (Inr (events, next_run)) \<Rightarrow>
          (case fetch_cycles rest tds next_run limit api_version is_command of
             None \<Rightarrow> None
           | Some (Inl e) \<Rightarrow> Some (Inl e)
           | Some (Inr (batches, final)) \<Rightarrow> Some (Inr (events # batches, final))))"

text \<open>
  The records of one event type that the pagination loop accumulates in a cycle, and, for a
  run of cycles, the records of that event type that \<^verbatim>\<open>dedup_by_id\<close> processes in each cycle.
\<close>

definition accumulated ::
  "transport \<Rightarrow> string \<Rightarrow> string \<Rightarrow> last_run \<Rightarrow> int \<Rightarrow> bool \<Rightarrow> event list" where
  "accumulated http api_version event_type last_run limit is_command =
     (case while_loop http api_version event_type last_run limit is_command [] 0 of
        Some (Inr events) \<Rightarrow> events
      | _ \<Rightarrow> [])"

fun processed_batches ::
  "transport list \<Rightarrow> datestring \<Rightarrow> last_run \<Rightarrow> int option \<Rightarrow> string \<Rightarrow> bool \<Rightarrow> string
     \<Rightarrow> event list list" where
  "processed_batches [] tds last_run limit api_version is_command event_type = []"
| "processed_batches (http # rest) tds last_run limit api_version is_command event_type =
     processed
       (accumulated http api_version event_type last_run (effective_limit limit) is_command)
       (effective_limit limit)
     # (case get_all_events http tds last_run limit api_version is_command of
          Some (Inr (events, next_run)) \<Rightarrow>
            processed_batches rest tds next_run limit api_version is_command event_type
        | _ \<Rightarrow> [])"

text \<open>
  The delivered records of an event type are those that carry its \<^verbatim>\<open>source_log_event\<close> tag;
  \<open>int_timestamp\<close> reads an integer timestamp.
\<close>

definition of_event_type :: "string \<Rightarrow> event \<Rightarrow> bool" where
  "of_event_type event_type e = (e ''source_log_event'' = Some (PStr event_type))"

definition int_timestamp :: "event \<Rightarrow> int" where
  "int_timestamp e = (case timestamp_of e of PInt t \<Rightarrow> t | _ \<Rightarrow> 0)"

definition id_and_timestamp :: "event \<Rightarrow> pyval \<times> pyval" where
  "id_and_timestamp e = (id_of e, timestamp_of e)"

section \<open>The loop of dedup_by_id in closed form\<close>

lemma timestamp_of_with_event_id [simp]: "timestamp_of (with_event_id e) = timestamp_of e"
  by (simp add: timestamp_of_def with_event_id_def py_get_def)

lemma id_of_with_event_id [simp]: "id_of (with_event_id e) = id_of e"
  by (simp add: id_of_def with_event_id_def py_get_def)

lemma is_tie_with_event_id [simp]: "is_tie saved (with_event_id e) = is_tie saved e"
  by (simp add: is_tie_def)

lemma ids_key_neq [simp]: "ids_key et \<noteq> et" "et \<noteq> ids_key et"
  by (simp_all add: ids_key_def)

lemma dedup_step_None:
  "last_run event_type = None \<Longrightarrow> dedup_step last_run event_type st e = Inl KeyError"
  by (simp add: dedup_step_def Let_def)

lemma dedup_step_Some:
  "last_run event_type = Some saved \<Longrightarrow>
   dedup_step last_run event_type st e = Inr (dedup_next saved event_type st e)"
  by (auto simp add: dedup_step_def dedup_next_def Let_def is_tie_def timestamp_of_def id_of_def
        with_event_id_def insert_absorb)

lemma dedup_loop_Some:
  "last_run event_type = Some saved \<Longrightarrow>
   dedup_loop last_run event_type st xs = Inr (foldl (dedup_next saved event_type) st xs)"
  by (induction xs arbitrary: st) (simp_all add: dedup_step_Some)

lemma dedup_loop_None:
  "last_run event_type = None \<Longrightarrow>
   dedup_loop last_run event_type st xs = (if xs = [] then Inr st else Inl KeyError)"
  by (cases xs) (simp_all add: dedup_step_None)

text \<open>The identifiers of the records of the second branch, in the order of processing.\<close>

lemma foldl_new_events_ids:
  "new_events_ids (foldl (dedup_next saved et) st xs) =
     new_events_ids st @ map id_of (filter (\<lambda>e. \<not> is_tie saved e) xs)"
  by (induction xs arbitrary: st) (simp_all add: dedup_next_def)

lemma foldl_last_run_ids:
  "last_run_ids (foldl (dedup_next saved et) st xs) =
     last_run_ids st \<union> id_of ` {e \<in> set xs. is_tie saved e}"
  by (induction xs arbitrary: st) (auto simp add: dedup_next_def)

lemma foldl_new_last_run_ts:
  "new_last_run (foldl (dedup_next saved et) st xs) et =
     (if filter (\<lambda>e. \<not> is_tie saved e) xs = [] then new_last_run st et
      else Some (Ts (timestamp_of (last (filter (\<lambda>e. \<not> is_tie saved e) xs)))))"
  by (induction xs arbitrary: st) (simp_all add: dedup_next_def)

lemma foldl_new_last_run_other:
  "k \<noteq> et \<Longrightarrow> k \<noteq> ids_key et \<Longrightarrow>
   new_last_run (foldl (dedup_next saved et) st xs) k = new_last_run st k"
  by (induction xs arbitrary: st) (simp_all add: dedup_next_def)

lemma foldl_new_last_run_ids:
  "xs \<noteq> [] \<Longrightarrow>
   new_last_run (foldl (dedup_next saved et) st xs) (ids_key et) =
     Some (if new_events_ids (foldl (dedup_next saved et) st xs) \<noteq> []
           then Ids (new_events_ids (foldl (dedup_next saved et) st xs))
           else IdSet (last_run_ids (foldl (dedup_next saved et) st xs)))"
proof (induction xs arbitrary: st rule: rev_induct)
  case Nil
  then show ?case by simp
next
  case (snoc e xs)
  show ?case by (simp add: dedup_next_def)
qed

text \<open>Every record of the second branch is appended to \<^verbatim>\<open>new_events\<close>.\<close>

lemma foldl_new_events_new:
  "filter (\<lambda>e. \<not> is_tie saved e) (new_events (foldl (dedup_next saved et) st xs)) =
     filter (\<lambda>e. \<not> is_tie saved e) (new_events st) @
     map with_event_id (filter (\<lambda>e. \<not> is_tie saved e) xs)"
  by (induction xs arbitrary: st) (simp_all add: dedup_next_def)

text \<open>
  When the processed records have pairwise different identifiers, a record of the first
  branch is appended exactly when its identifier is not among the saved ones.
\<close>

lemma foldl_new_events_distinct:
  "distinct (map id_of xs) \<Longrightarrow>
   new_events (foldl (dedup_next saved et) st xs) =
     new_events st @
     map with_event_id (filter (\<lambda>e. \<not> is_tie saved e \<or> id_of e \<notin> last_run_ids st) xs)"
proof (induction xs arbitrary: st)
  case Nil
  show ?case by simp
next
  case (Cons e xs)
  have "filter (\<lambda>x. \<not> is_tie saved x \<or> id_of x \<notin> insert (id_of e) S) xs
      = filter (\<lambda>x. \<not> is_tie saved x \<or> id_of x \<notin> S) xs" for S
    using Cons.prems by (intro filter_cong) (auto simp: image_iff)
  with Cons show ?case by (simp add: dedup_next_def)
qed

text \<open>\<^verbatim>\<open>dedup_by_id\<close> on a last run that holds a timestamp and an iterable identifier entry.\<close>

lemma dedup_by_id_Some:
  assumes "last_run event_type = Some saved" and "saved_ids last_run event_type = Inr S"
  shows "dedup_by_id last_run results event_type limit =
     Inr (new_events (foldl (dedup_next saved event_type) (dedup_init S) (processed results limit)),
          new_last_run (foldl (dedup_next saved event_type) (dedup_init S) (processed results limit)))"
  using assms by (simp add: dedup_by_id_def processed_def dedup_loop_Some Let_def)

lemma dedup_by_id_None:
  assumes "last_run event_type = None" and "saved_ids last_run event_type = Inr S"
  shows "dedup_by_id last_run results event_type limit =
     (if processed results limit = [] then Inr ([], Map.empty) else Inl KeyError)"
  using assms by (simp add: dedup_by_id_def processed_def dedup_loop_None dedup_init_def Let_def)

lemma dedup_by_id_TypeError:
  "saved_ids last_run event_type = Inl e \<Longrightarrow> dedup_by_id last_run results event_type limit = Inl e"
  by (simp add: dedup_by_id_def)

lemma dedup_by_id_Inr_saved_ids:
  "dedup_by_id last_run results event_type limit = Inr r \<Longrightarrow>
   \<exists>S. saved_ids last_run event_type = Inr S"
  by (cases "saved_ids last_run event_type") (simp_all add: dedup_by_id_def)

section \<open>Claims about dedup_by_id\<close>

lemmas scenario_defs =
  dedup_by_id_def saved_ids_def dedup_init_def dedup_step_def py_slice_to_def py_get_def
  checkpoint_def mk_event_def ids_key_def with_event_id_def id_of_def timestamp_of_def
  is_tie_def processed_def Let_def

text \<open>
  Claim C3, as the code has it. The saved timestamp is 100 and the saved identifier \<open>a\<close>. The
  batch holds the records \<open>a\<close> (100), \<open>b\<close> (100) and \<open>c\<close> (101) in the order in which the
  remote sends them, newest first (in either order of the two records of timestamp 100), and
  the limit is at least three. Then \<^verbatim>\<open>dedup_by_id\<close> returns the records \<open>b\<close> and \<open>c\<close>, in this
  order, each with its \<^verbatim>\<open>event_id\<close> field set, and the new last run with the timestamp 101 and
  the identifier list \<open>[c]\<close>.
\<close>

theorem C3_tie_breaking:
  assumes "3 \<le> limit"
  shows "dedup_by_id (checkpoint et 100 [''a''])
           [mk_event ''c'' 101, mk_event ''b'' 100, mk_event ''a'' 100] et limit =
         Inr ([with_event_id (mk_event ''b'' 100), with_event_id (mk_event ''c'' 101)],
              checkpoint et 101 [''c''])
       \<and> dedup_by_id (checkpoint et 100 [''a''])
           [mk_event ''c'' 101, mk_event ''a'' 100, mk_event ''b'' 100] et limit =
         Inr ([with_event_id (mk_event ''b'' 100), with_event_id (mk_event ''c'' 101)],
              checkpoint et 101 [''c''])"
  using assms by (simp add: scenario_defs)

theorem C3_tie_breaking_witness:
  "(3::int) \<le> 3
   \<and> dedup_by_id (checkpoint ''audit'' 100 [''a''])
        [mk_event ''c'' 101, mk_event ''b'' 100, mk_event ''a'' 100] ''audit'' 3 =
      Inr ([with_event_id (mk_event ''b'' 100), with_event_id (mk_event ''c'' 101)],
           checkpoint ''audit'' 101 [''c''])"
proof -
  have h: "(3::int) \<le> 3" by simp
  show ?thesis using h C3_tie_breaking [OF h, of "''audit''"] by simp
qed

text \<open>
  The claim C3 as stated fails on two counts. It leaves the order of the batch open and lists
  the records oldest first: handed over in that order, the three records are processed
  newest first, and \<open>c\<close> is delivered before \<open>b\<close>. It also leaves the limit open: with the
  limit 2 and the batch newest first, only \<open>a\<close> and \<open>b\<close> are processed, \<open>b\<close> alone is
  delivered, and the new last run has the identifier set \<open>{a, b}\<close> and no timestamp.
\<close>

theorem C3_counterexample:
  "dedup_by_id [''audit'' \<mapsto> Ts (PInt 100), ''audit-ids'' \<mapsto> Ids [PStr ''a'']]
     [[''_id'' \<mapsto> PStr ''a'', ''timestamp'' \<mapsto> PInt 100],
      [''_id'' \<mapsto> PStr ''b'', ''timestamp'' \<mapsto> PInt 100],
      [''_id'' \<mapsto> PStr ''c'', ''timestamp'' \<mapsto> PInt 101]] ''audit'' 3 =
   Inr ([[''_id'' \<mapsto> PStr ''c'', ''timestamp'' \<mapsto> PInt 101, ''event_id'' \<mapsto> PStr ''c''],
         [''_id'' \<mapsto> PStr ''b'', ''timestamp'' \<mapsto> PInt 100, ''event_id'' \<mapsto> PStr ''b'']],
        [''audit'' \<mapsto> Ts (PInt 101), ''audit-ids'' \<mapsto> Ids [PStr ''c'']])
   \<and> dedup_by_id [''audit'' \<mapsto> Ts (PInt 100), ''audit-ids'' \<mapsto> Ids [PStr ''a'']]
     [[''_id'' \<mapsto> PStr ''c'', ''timestamp'' \<mapsto> PInt 101],
      [''_id'' \<mapsto> PStr ''b'', ''timestamp'' \<mapsto> PInt 100],
      [''_id'' \<mapsto> PStr ''a'', ''timestamp'' \<mapsto> PInt 100]] ''audit'' 2 =
   Inr ([[''_id'' \<mapsto> PStr ''b'', ''timestamp'' \<mapsto> PInt 100, ''event_id'' \<mapsto> PStr ''b'']],
        [''audit-ids'' \<mapsto> IdSet {PStr ''a'', PStr ''b''}])"
  by (simp add: scenario_defs insert_commute)

text \<open>
  Claim C10. Suppression by identifier is confined to the records whose timestamp equals the
  saved one: the delivered records whose timestamp differs from the saved timestamp are
  exactly the processed records whose timestamp differs from it, one for one and in order,
  whatever their identifiers. So for every identifier, as many such records are delivered as
  were processed: two processed records sharing an identifier and a timestamp other than the
  saved one are both delivered.
\<close>

theorem C10_new_timestamps_not_deduplicated:
  assumes "dedup_by_id last_run results event_type limit = Inr (delivered, nlr)"
      and "last_run event_type = Some saved"
  shows "filter (\<lambda>e. \<not> is_tie saved e) delivered =
           map with_event_id (filter (\<lambda>e. \<not> is_tie saved e) (processed results limit))
       \<and> length (filter (\<lambda>e. id_of e = i \<and> \<not> is_tie saved e) delivered) =
           length (filter (\<lambda>e. id_of e = i \<and> \<not> is_tie saved e) (processed results limit))"
proof -
  obtain S where S: "saved_ids last_run event_type = Inr S"
    using assms(1) dedup_by_id_Inr_saved_ids by blast
  have d: "delivered =
      new_events (foldl (dedup_next saved event_type) (dedup_init S) (processed results limit))"
    using assms dedup_by_id_Some [OF assms(2) S, of results limit] by simp
  have eq: "filter (\<lambda>e. \<not> is_tie saved e) delivered =
           map with_event_id (filter (\<lambda>e. \<not> is_tie saved e) (processed results limit))"
    unfolding d by (simp add: foldl_new_events_new dedup_init_def)
  have "filter (\<lambda>e. id_of e = i \<and> \<not> is_tie saved e) delivered =
        filter (\<lambda>e. id_of e = i) (filter (\<lambda>e. \<not> is_tie saved e) delivered)"
    by (simp add: conj_commute)
  also have "\<dots> = map with_event_id
        (filter (\<lambda>e. id_of e = i \<and> \<not> is_tie saved e) (processed results limit))"
    unfolding eq by (simp add: filter_map comp_def conj_commute)
  finally have "length (filter (\<lambda>e. id_of e = i \<and> \<not> is_tie saved e) delivered) =
           length (filter (\<lambda>e. id_of e = i \<and> \<not> is_tie saved e) (processed results limit))"
    by simp
  with eq show ?thesis by simp
qed

theorem C10_new_timestamps_not_deduplicated_witness:
  "dedup_by_id (checkpoint ''audit'' 100 [])
     [(mk_event ''d'' 101)(''app'' \<mapsto> PStr ''y''), (mk_event ''d'' 101)(''app'' \<mapsto> PStr ''x'')]
     ''audit'' 10 =
   Inr ([with_event_id ((mk_event ''d'' 101)(''app'' \<mapsto> PStr ''x'')),
         with_event_id ((mk_event ''d'' 101)(''app'' \<mapsto> PStr ''y''))],
        checkpoint ''audit'' 101 [''d'', ''d''])
   \<and> length (filter (\<lambda>e. id_of e = PStr ''d'' \<and> \<not> is_tie (Ts (PInt 100)) e)
        [with_event_id ((mk_event ''d'' 101)(''app'' \<mapsto> PStr ''x'')),
         with_event_id ((mk_event ''d'' 101)(''app'' \<mapsto> PStr ''y''))]) = 2"
proof -
  have run: "dedup_by_id (checkpoint ''audit'' 100 [])
     [(mk_event ''d'' 101)(''app'' \<mapsto> PStr ''y''), (mk_event ''d'' 101)(''app'' \<mapsto> PStr ''x'')]
     ''audit'' 10 =
   Inr ([with_event_id ((mk_event ''d'' 101)(''app'' \<mapsto> PStr ''x'')),
         with_event_id ((mk_event ''d'' 101)(''app'' \<mapsto> PStr ''y''))],
        checkpoint ''audit'' 101 [''d'', ''d''])"
    by (simp add: scenario_defs)
  have saved: "checkpoint ''audit'' 100 [] ''audit'' = Some (Ts (PInt 100))"
    by (simp add: checkpoint_def ids_key_def)
  have "length (filter (\<lambda>e. id_of e = PStr ''d'' \<and> \<not> is_tie (Ts (PInt 100)) e)
          (processed [(mk_event ''d'' 101)(''app'' \<mapsto> PStr ''y''),
                      (mk_event ''d'' 101)(''app'' \<mapsto> PStr ''x'')] 10)) = 2"
    by (simp add: scenario_defs)
  with C10_new_timestamps_not_deduplicated [OF run saved, of "PStr ''d''"] run
  show ?thesis by simp
qed

text \<open>
  Claim C2, as the code has it. When at least one processed record has a timestamp other than
  the saved one, the identifier entry of the new last run is the list of the identifiers of
  all processed records whose timestamp differs from the saved one, in the order of
  processing: the saved identifiers are dropped, not merged, but the identifiers of every new
  timestamp of the batch are kept together, not only those of the last timestamp. When every
  processed record has the saved timestamp, the entry is the set of the saved identifiers
  together with the identifiers of the processed records. When no record is processed there
  is no entry.
\<close>

theorem C2_retained_ids:
  assumes "dedup_by_id last_run results event_type limit = Inr (delivered, nlr)"
      and "last_run event_type = Some saved"
      and "saved_ids last_run event_type = Inr S"
  shows "nlr (ids_key event_type) =
     (if processed results limit = [] then None
      else if filter (\<lambda>e. \<not> is_tie saved e) (processed results limit) \<noteq> []
      then Some (Ids (map id_of (filter (\<lambda>e. \<not> is_tie saved e) (processed results limit))))
      else Some (IdSet (S \<union> id_of ` set (processed results limit))))"
proof -
  let ?P = "processed results limit"
  let ?F = "foldl (dedup_next saved event_type) (dedup_init S) ?P"
  have n: "nlr = new_last_run ?F"
    using assms(1) dedup_by_id_Some [OF assms(2,3), of results limit] by simp
  show ?thesis
  proof (cases "?P = []")
    case True
    then show ?thesis by (simp add: n dedup_init_def)
  next
    case False
    have ids: "new_events_ids ?F = map id_of (filter (\<lambda>e. \<not> is_tie saved e) ?P)"
      by (simp add: foldl_new_events_ids dedup_init_def)
    have "filter (\<lambda>e. \<not> is_tie saved e) ?P = [] \<Longrightarrow> {e \<in> set ?P. is_tie saved e} = set ?P"
      by (auto simp add: filter_empty_conv)
    then have set: "filter (\<lambda>e. \<not> is_tie saved e) ?P = [] \<Longrightarrow>
        last_run_ids ?F = S \<union> id_of ` set ?P"
      by (simp add: foldl_last_run_ids dedup_init_def)
    show ?thesis
      using False set by (simp add: n foldl_new_last_run_ids [OF False] ids)
  qed
qed

theorem C2_retained_ids_witness:
  "dedup_by_id (checkpoint ''audit'' 100 []) [mk_event ''c'' 102, mk_event ''b'' 101] ''audit'' 10 =
     Inr ([with_event_id (mk_event ''b'' 101), with_event_id (mk_event ''c'' 102)],
          checkpoint ''audit'' 102 [''b'', ''c''])
   \<and> checkpoint ''audit'' 102 [''b'', ''c''] (ids_key ''audit'') =
       Some (Ids (map id_of (filter (\<lambda>e. \<not> is_tie (Ts (PInt 100)) e)
         (processed [mk_event ''c'' 102, mk_event ''b'' 101] 10))))"
proof -
  have run: "dedup_by_id (checkpoint ''audit'' 100 [])
      [mk_event ''c'' 102, mk_event ''b'' 101] ''audit'' 10 =
     Inr ([with_event_id (mk_event ''b'' 101), with_event_id (mk_event ''c'' 102)],
          checkpoint ''audit'' 102 [''b'', ''c''])"
    by (simp add: scenario_defs)
  have saved: "checkpoint ''audit'' 100 [] ''audit'' = Some (Ts (PInt 100))"
    by (simp add: checkpoint_def ids_key_def)
  have ids: "saved_ids (checkpoint ''audit'' 100 []) ''audit'' = Inr {}"
    by (simp add: saved_ids_def checkpoint_def)
  have ne: "processed [mk_event ''c'' 102, mk_event ''b'' 101] 10 \<noteq> []"
    "filter (\<lambda>e. \<not> is_tie (Ts (PInt 100)) e)
       (processed [mk_event ''c'' 102, mk_event ''b'' 101] 10) \<noteq> []"
    by (simp_all add: scenario_defs)
  show ?thesis using C2_retained_ids [OF run saved ids] run ne by simp
qed

text \<open>
  The claim C2 as stated fails: from the saved timestamp 100, the batch of \<open>c\<close> (102) and \<open>b\<close>
  (101) gives the new timestamp 102 with the identifier list \<open>[b, c]\<close>, and \<open>b\<close> is the
  identifier of a record of timestamp 101.
\<close>

theorem C2_counterexample:
  "dedup_by_id [''audit'' \<mapsto> Ts (PInt 100), ''audit-ids'' \<mapsto> Ids []]
     [[''_id'' \<mapsto> PStr ''c'', ''timestamp'' \<mapsto> PInt 102],
      [''_id'' \<mapsto> PStr ''b'', ''timestamp'' \<mapsto> PInt 101]] ''audit'' 10 =
   Inr ([[''_id'' \<mapsto> PStr ''b'', ''timestamp'' \<mapsto> PInt 101, ''event_id'' \<mapsto> PStr ''b''],
         [''_id'' \<mapsto> PStr ''c'', ''timestamp'' \<mapsto> PInt 102, ''event_id'' \<mapsto> PStr ''c'']],
        [''audit'' \<mapsto> Ts (PInt 102), ''audit-ids'' \<mapsto> Ids [PStr ''b'', PStr ''c'']])"
  by (simp add: scenario_defs)

text \<open>
  Claim C6, as the code has it. A processed record sets the timestamp of the new last run to
  its own timestamp exactly when its timestamp differs from the saved one, older or newer:
  the new timestamp is that of the last such record processed, and there is none when every
  processed record has the saved timestamp. When the saved timestamp is an integer and every
  processed record has an integer timestamp that is not smaller, the new timestamp, when
  there is one, is an integer strictly greater than the saved one.
\<close>

theorem C6_new_timestamp:
  assumes "dedup_by_id last_run results event_type limit = Inr (delivered, nlr)"
      and "last_run event_type = Some saved"
  shows "nlr event_type =
     (if filter (\<lambda>e. \<not> is_tie saved e) (processed results limit) = [] then None
      else Some (Ts (timestamp_of
             (last (filter (\<lambda>e. \<not> is_tie saved e) (processed results limit))))))
     \<and> (saved = Ts (PInt t0)
        \<and> (\<forall>e \<in> set (processed results limit). \<exists>t. timestamp_of e = PInt t \<and> t0 \<le> t)
        \<longrightarrow> (\<forall>v. nlr event_type = Some v \<longrightarrow> (\<exists>t. v = Ts (PInt t) \<and> t0 < t)))"
proof -
  let ?P = "processed results limit"
  let ?N = "filter (\<lambda>e. \<not> is_tie saved e) ?P"
  obtain S where S: "saved_ids last_run event_type = Inr S"
    using assms(1) dedup_by_id_Inr_saved_ids by blast
  have n: "nlr = new_last_run (foldl (dedup_next saved event_type) (dedup_init S) ?P)"
    using assms(1) dedup_by_id_Some [OF assms(2) S, of results limit] by simp
  have ts: "nlr event_type = (if ?N = [] then None else Some (Ts (timestamp_of (last ?N))))"
    by (simp add: n foldl_new_last_run_ts dedup_init_def)
  have "\<exists>t. v = Ts (PInt t) \<and> t0 < t"
    if saved: "saved = Ts (PInt t0)"
      and ge: "\<forall>e \<in> set ?P. \<exists>t. timestamp_of e = PInt t \<and> t0 \<le> t"
      and v: "nlr event_type = Some v" for v
  proof -
    from v ts have ne: "?N \<noteq> []" and veq: "v = Ts (timestamp_of (last ?N))"
      by (auto split: if_splits)
    from ne have mem: "last ?N \<in> set ?N" by (rule last_in_set)
    then have "last ?N \<in> set ?P" and nt: "\<not> is_tie saved (last ?N)" by auto
    with ge obtain t where t: "timestamp_of (last ?N) = PInt t" "t0 \<le> t" by blast
    with nt saved have "t \<noteq> t0" by (auto simp add: is_tie_def)
    with t veq show ?thesis by auto
  qed
  with ts show ?thesis by blast
qed

theorem C6_new_timestamp_witness:
  "dedup_by_id (checkpoint ''audit'' 100 [])
     [mk_event ''c'' 101, mk_event ''b'' 100] ''audit'' 10 =
     Inr ([with_event_id (mk_event ''b'' 100), with_event_id (mk_event ''c'' 101)],
          checkpoint ''audit'' 101 [''c''])
   \<and> checkpoint ''audit'' 101 [''c''] ''audit'' = Some (Ts (PInt 101)) \<and> (100::int) < 101"
proof -
  have run: "dedup_by_id (checkpoint ''audit'' 100 [])
      [mk_event ''c'' 101, mk_event ''b'' 100] ''audit'' 10 =
     Inr ([with_event_id (mk_event ''b'' 100), with_event_id (mk_event ''c'' 101)],
          checkpoint ''audit'' 101 [''c''])"
    by (simp add: scenario_defs)
  have saved: "checkpoint ''audit'' 100 [] ''audit'' = Some (Ts (PInt 100))"
    by (simp add: checkpoint_def ids_key_def)
  have ge: "\<forall>e \<in> set (processed [mk_event ''c'' 101, mk_event ''b'' 100] 10).
              \<exists>t. timestamp_of e = PInt t \<and> 100 \<le> t"
    by (simp add: scenario_defs)
  have new: "checkpoint ''audit'' 101 [''c''] ''audit'' = Some (Ts (PInt 101))"
    by (simp add: checkpoint_def ids_key_def)
  from C6_new_timestamp [OF run saved, of 100] saved ge new
  have "\<exists>t. Ts (PInt 101) = Ts (PInt t) \<and> (100::int) < t" by simp
  then have "(100::int) < 101" by simp
  with run new show ?thesis by simp
qed

text \<open>
  The claim C6 as stated fails: from the saved timestamp 100, a batch with one record of
  timestamp 50 sets the new timestamp to 50.
\<close>

theorem C6_counterexample:
  "dedup_by_id [''audit'' \<mapsto> Ts (PInt 100), ''audit-ids'' \<mapsto> Ids []]
     [[''_id'' \<mapsto> PStr ''x'', ''timestamp'' \<mapsto> PInt 50]] ''audit'' 10 =
   Inr ([[''_id'' \<mapsto> PStr ''x'', ''timestamp'' \<mapsto> PInt 50, ''event_id'' \<mapsto> PStr ''x'']],
        [''audit'' \<mapsto> Ts (PInt 50), ''audit-ids'' \<mapsto> Ids [PStr ''x'']])"
  by (simp add: scenario_defs)

section \<open>Iteration in get_all_events\<close>

lemma while_loop_Break:
  "while_body http api_version event_type last_run limit is_command events skip = Inr (Break evs)
   \<Longrightarrow> while_loop http api_version event_type last_run limit is_command events skip = Some (Inr evs)"
  by (subst while_loop.simps) simp

lemma while_loop_Continue:
  "while_body http api_version event_type last_run limit is_command events skip =
     Inr (Continue evs sk)
   \<Longrightarrow> while_loop http api_version event_type last_run limit is_command events skip =
       while_loop http api_version event_type last_run limit is_command evs sk"
  by (subst while_loop.simps) simp

lemma while_loop_Inl:
  "while_body http api_version event_type last_run limit is_command events skip = Inl e
   \<Longrightarrow> while_loop http api_version event_type last_run limit is_command events skip = Some (Inl e)"
  by (subst while_loop.simps) simp

lemma effective_limit_simps [simp]:
  "effective_limit None = MAX_EVENTS_PAGE_SIZE" "effective_limit (Some l) = l"
  by (simp_all add: effective_limit_def)

lemma get_all_events_unfold:
  "get_all_events http tds last_run limit api_version is_command =
     for_event_types http tds last_run (effective_limit limit) api_version is_command
       ALL_SUPPORTED_EVENT_TYPES ([], Map.empty)"
  by (simp add: get_all_events_def effective_limit_def)

text \<open>The remote \<open>single_page\<close>: one page for its event type, none for the others.\<close>

lemma request_page_single_page:
  "request_page (single_page api_version et evs) api_version event_type last_run 0 limit is_command
     = Inr (Some (if event_type = et then evs else []))"
  by (auto simp add: request_page_def single_page_def get_events_request_v1_def
        get_alerts_request_v1_def get_events_request_v2_def v1_page_def v2_page_def)

lemma while_loop_single_page:
  assumes "int (length evs) < MAX_EVENTS_PAGE_SIZE"
  shows "while_loop (single_page api_version et evs) api_version event_type last_run limit
           is_command [] 0 = Some (Inr (if event_type = et then evs else []))"
  using assms
  by (intro while_loop_Break) (simp add: while_body_def request_page_single_page)

text \<open>The keys of the event types: no event type is the identifier key of another.\<close>

lemma supported_keys:
  assumes "a \<in> set ALL_SUPPORTED_EVENT_TYPES" and "b \<in> set ALL_SUPPORTED_EVENT_TYPES"
  shows "a \<noteq> ids_key b" and "ids_key a = ids_key b \<longleftrightarrow> a = b"
  using assms by (auto simp add: ALL_SUPPORTED_EVENT_TYPES_def ids_key_def)

lemma distinct_supported: "distinct ALL_SUPPORTED_EVENT_TYPES"
  by (simp add: ALL_SUPPORTED_EVENT_TYPES_def)

text \<open>What \<^verbatim>\<open>dedup_by_id\<close> writes: only the two keys of its event type.\<close>

lemma dedup_by_id_other_keys:
  assumes "dedup_by_id last_run results event_type limit = Inr (delivered, nlr)"
      and "k \<noteq> event_type" and "k \<noteq> ids_key event_type"
  shows "nlr k = None"
proof -
  obtain S where S: "saved_ids last_run event_type = Inr S"
    using assms(1) dedup_by_id_Inr_saved_ids by blast
  show ?thesis
  proof (cases "last_run event_type")
    case None
    from assms(1) dedup_by_id_None [OF None S, of results limit] show ?thesis
      by (auto split: if_splits)
  next
    case (Some saved)
    from assms(1) dedup_by_id_Some [OF Some S, of results limit] assms(2,3) show ?thesis
      by (auto simp add: foldl_new_last_run_other dedup_init_def)
  qed
qed

lemma process_events_other_keys:
  assumes "process_events tds last_run limit event_type events acc = Inr acc1"
      and "k \<noteq> event_type" and "k \<noteq> ids_key event_type"
  shows "snd acc1 k = snd acc k"
proof (cases "events = []")
  case True
  with assms(1) show ?thesis by (simp add: process_events_def)
next
  case False
  with assms(1) obtain final_events partial_last_run final_events1 where
    d: "dedup_by_id last_run events event_type limit = Inr (final_events, partial_last_run)"
    and a: "acc1 = (fst acc @ final_events1, snd acc ++ partial_last_run)"
    by (auto simp add: process_events_def Let_def split: sum.splits if_splits prod.splits)
  from dedup_by_id_other_keys [OF d assms(2,3)] a show ?thesis
    by (simp add: map_add_def)
qed

lemma process_events_empty [simp]:
  "process_events tds last_run limit event_type [] acc = Inr acc"
  by (simp add: process_events_def)

lemma for_event_types_append:
  "for_event_types http tds last_run limit api_version is_command (xs @ ys) acc =
     (case for_event_types http tds last_run limit api_version is_command xs acc of
        None \<Rightarrow> None
      | Some (Inl e) \<Rightarrow> Some (Inl e)
      | Some (Inr acc1) \<Rightarrow>
          for_event_types http tds last_run limit api_version is_command ys acc1)"
  by (induction xs arbitrary: acc) (auto split: option.splits sum.splits)

lemma for_event_types_other_keys:
  assumes "for_event_types http tds last_run limit api_version is_command ets acc = Some (Inr acc1)"
      and "\<forall>et \<in> set ets. k \<noteq> et \<and> k \<noteq> ids_key et"
  shows "snd acc1 k = snd acc k"
  using assms
proof (induction ets arbitrary: acc)
  case Nil
  then show ?case by simp
next
  case (Cons et ets)
  from Cons.prems(1) obtain events acc2 where
    p: "process_events tds last_run limit et events acc = Inr acc2"
    and r: "for_event_types http tds last_run limit api_version is_command ets acc2 = Some (Inr acc1)"
    by (auto split: option.splits sum.splits)
  from Cons.prems(2) have "snd acc2 k = snd acc k"
    using process_events_other_keys [OF p] by simp
  moreover from Cons.IH [OF r] Cons.prems(2) have "snd acc1 k = snd acc2 k" by simp
  ultimately show ?case by simp
qed

section \<open>Claims about one cycle of get_all_events\<close>

lemmas cycle_defs =
  get_all_events_unfold ALL_SUPPORTED_EVENT_TYPES_def MAX_EVENTS_PAGE_SIZE_def
  while_loop_single_page process_events_def populate_parsing_rule_fields_def
  delivered_as_def tagged_def sample_datestring_def

lemma for_event_types_idle:
  assumes "for_event_types http tds last_run limit api_version is_command ets acc = Some (Inr acc1)"
      and "while_loop http api_version event_type last_run limit is_command [] 0 = Some (Inr [])"
      and "\<forall>et \<in> set ets. et \<noteq> event_type \<longrightarrow> k \<noteq> et \<and> k \<noteq> ids_key et"
  shows "snd acc1 k = snd acc k"
  using assms(1,3)
proof (induction ets arbitrary: acc)
  case Nil
  then show ?case by simp
next
  case (Cons et ets)
  from Cons.prems(1) obtain events acc2 where
    w: "while_loop http api_version et last_run limit is_command [] 0 = Some (Inr events)"
    and p: "process_events tds last_run limit et events acc = Inr acc2"
    and r: "for_event_types http tds last_run limit api_version is_command ets acc2 = Some (Inr acc1)"
    by (auto split: option.splits sum.splits)
  have "snd acc2 k = snd acc k"
  proof (cases "et = event_type")
    case True
    with w assms(2) have "events = []" by simp
    with p show ?thesis by simp
  next
    case False
    with Cons.prems(2) show ?thesis using process_events_other_keys [OF p] by simp
  qed
  moreover from Cons.IH [OF r] Cons.prems(2) have "snd acc1 k = snd acc2 k" by simp
  ultimately show ?case by simp
qed

text \<open>
  Claim C4, as the code has it. \<^verbatim>\<open>get_all_events\<close> builds the new last run from an empty
  dictionary and writes the keys of an event type only in the \<^verbatim>\<open>if events:\<close> block. So for
  every supported event type that accumulates no records in a cycle that returns, the new
  last run has no entry at all: neither the timestamp nor the identifiers of the prior last
  run are carried over.
\<close>

theorem C4_idle_event_type_absent:
  assumes "get_all_events http tds last_run limit api_version is_command =
             Some (Inr (delivered, nlr))"
      and "event_type \<in> set ALL_SUPPORTED_EVENT_TYPES"
      and "while_loop http api_version event_type last_run (effective_limit limit) is_command [] 0
             = Some (Inr [])"
  shows "nlr event_type = None \<and> nlr (ids_key event_type) = None"
proof -
  from assms(1) have run:
    "for_event_types http tds last_run (effective_limit limit) api_version is_command
       ALL_SUPPORTED_EVENT_TYPES ([], Map.empty) = Some (Inr (delivered, nlr))"
    by (simp add: get_all_events_unfold)
  have k1: "\<forall>et \<in> set ALL_SUPPORTED_EVENT_TYPES.
      et \<noteq> event_type \<longrightarrow> event_type \<noteq> et \<and> event_type \<noteq> ids_key et"
    using supported_keys(1) [OF assms(2)] by auto
  have k2: "\<forall>et \<in> set ALL_SUPPORTED_EVENT_TYPES.
      et \<noteq> event_type \<longrightarrow> ids_key event_type \<noteq> et \<and> ids_key event_type \<noteq> ids_key et"
    using supported_keys(1) [OF _ assms(2)] supported_keys(2) [OF assms(2)] by metis
  from for_event_types_idle [OF run assms(3) k1] for_event_types_idle [OF run assms(3) k2]
  show ?thesis by simp
qed

theorem C4_idle_event_type_absent_witness:
  "get_all_events (single_page ''v2'' ''page'' [mk_event ''p'' 7]) sample_datestring
     (checkpoint ''audit'' 5 [''x''] ++ checkpoint ''page'' 5 []) (Some 1000) ''v2'' False =
   Some (Inr ([delivered_as ''page'' (PStr ''1970-01-01T00:00:00.000Z'') (mk_event ''p'' 7)],
              checkpoint ''page'' 7 [''p'']))
   \<and> checkpoint ''page'' 7 [''p''] ''audit'' = None
   \<and> checkpoint ''page'' 7 [''p''] (ids_key ''audit'') = None"
proof -
  have run: "get_all_events (single_page ''v2'' ''page'' [mk_event ''p'' 7]) sample_datestring
     (checkpoint ''audit'' 5 [''x''] ++ checkpoint ''page'' 5 []) (Some 1000) ''v2'' False =
   Some (Inr ([delivered_as ''page'' (PStr ''1970-01-01T00:00:00.000Z'') (mk_event ''p'' 7)],
              checkpoint ''page'' 7 [''p'']))"
    by (simp add: cycle_defs scenario_defs)
  have mem: "''audit'' \<in> set ALL_SUPPORTED_EVENT_TYPES"
    by (simp add: ALL_SUPPORTED_EVENT_TYPES_def)
  have idle: "while_loop (single_page ''v2'' ''page'' [mk_event ''p'' 7]) ''v2'' ''audit''
      (checkpoint ''audit'' 5 [''x''] ++ checkpoint ''page'' 5 []) (effective_limit (Some 1000))
      False [] 0 = Some (Inr [])"
    by (simp add: while_loop_single_page MAX_EVENTS_PAGE_SIZE_def)
  from C4_idle_event_type_absent [OF run mem idle] run show ?thesis by simp
qed

text \<open>
  The claim C4 as stated fails: the prior last run holds the audit checkpoint with timestamp 5
  and identifier \<open>x\<close>; audit accumulates nothing in the cycle, and the new last run holds the
  page checkpoint only.
\<close>

theorem C4_counterexample:
  "get_all_events (single_page ''v2'' ''page'' [mk_event ''p'' 7]) sample_datestring
     [''audit'' \<mapsto> Ts (PInt 5), ''audit-ids'' \<mapsto> Ids [PStr ''x''],
      ''page'' \<mapsto> Ts (PInt 5), ''page-ids'' \<mapsto> Ids []] (Some 1000) ''v2'' False =
   Some (Inr ([delivered_as ''page'' (PStr ''1970-01-01T00:00:00.000Z'') (mk_event ''p'' 7)],
              [''page'' \<mapsto> Ts (PInt 7), ''page-ids'' \<mapsto> Ids [PStr ''p'']]))
   \<and> [''page'' \<mapsto> Ts (PInt 7), ''page-ids'' \<mapsto> Ids [PStr ''p'']] ''audit'' = None
   \<and> [''page'' \<mapsto> Ts (PInt 7), ''page-ids'' \<mapsto> Ids [PStr ''p'']] ''audit-ids'' = None"
  by (simp add: cycle_defs scenario_defs)

text \<open>
  Claim C5, as the code has it. The prior last run is seeded as \<^verbatim>\<open>main\<close> seeds it, with a
  first-fetch timestamp other than 10 and 12 and an empty identifier list for audit. The
  remote holds three audit records with the timestamps 12, 10, 10 (newest first) and
  nothing else. One cycle with a limit of at least three, on either API version, delivers
  the three records in ascending order 10, 10, 12, each with \<^verbatim>\<open>event_id\<close>,
  \<^verbatim>\<open>source_log_event\<close> and \<^verbatim>\<open>_time\<close>, and the new last run is the audit checkpoint with the
  timestamp 12 and the identifiers of all three records.
\<close>

theorem C5_one_cycle:
  assumes "last_run ''audit'' = Some (Ts (PInt t0))" and "last_run ''audit-ids'' = Some (Ids [])"
      and "t0 \<noteq> 10" and "t0 \<noteq> 12"
      and "3 \<le> effective_limit limit"
      and "tds (PInt 10000) = Inr d10" and "tds (PInt 12000) = Inr d12"
  shows "get_all_events
           (single_page api_version ''audit''
              [mk_event ''z'' 12, mk_event ''y'' 10, mk_event ''x'' 10])
           tds last_run limit api_version is_command =
         Some (Inr ([delivered_as ''audit'' d10 (mk_event ''x'' 10),
                     delivered_as ''audit'' d10 (mk_event ''y'' 10),
                     delivered_as ''audit'' d12 (mk_event ''z'' 12)],
                    checkpoint ''audit'' 12 [''x'', ''y'', ''z'']))"
  using assms by (simp add: cycle_defs scenario_defs)

theorem C5_one_cycle_witness:
  "get_all_events
     (single_page ''v2'' ''audit'' [mk_event ''z'' 12, mk_event ''y'' 10, mk_event ''x'' 10])
     sample_datestring (checkpoint ''audit'' 5 []) None ''v2'' False =
   Some (Inr ([delivered_as ''audit'' (PStr ''1970-01-01T00:00:00.000Z'') (mk_event ''x'' 10),
               delivered_as ''audit'' (PStr ''1970-01-01T00:00:00.000Z'') (mk_event ''y'' 10),
               delivered_as ''audit'' (PStr ''1970-01-01T00:00:00.000Z'') (mk_event ''z'' 12)],
              checkpoint ''audit'' 12 [''x'', ''y'', ''z'']))"
proof -
  have a: "checkpoint ''audit'' 5 [] ''audit'' = Some (Ts (PInt 5))"
    and b: "checkpoint ''audit'' 5 [] ''audit-ids'' = Some (Ids [])"
    by (simp_all add: checkpoint_def ids_key_def)
  have c: "(5::int) \<noteq> 10" and d: "(5::int) \<noteq> 12" by simp_all
  have e: "3 \<le> effective_limit None" by (simp add: MAX_EVENTS_PAGE_SIZE_def)
  have f: "sample_datestring (PInt 10000) = Inr (PStr ''1970-01-01T00:00:00.000Z'')"
    and g: "sample_datestring (PInt 12000) = Inr (PStr ''1970-01-01T00:00:00.000Z'')"
    by (simp_all add: sample_datestring_def)
  show ?thesis by (rule C5_one_cycle [OF a b c d e f g])
qed

text \<open>
  The claim C5 as stated fails on both counts. On the empty prior last run the cycle raises
  \<^verbatim>\<open>KeyError\<close> at \<^verbatim>\<open>last_run[event_type]\<close>. On a last run seeded with the timestamp 5 the
  cycle returns, and the identifier list of the new checkpoint holds the identifiers of the
  two records of timestamp 10 as well.
\<close>

theorem C5_counterexample:
  "get_all_events
     (single_page ''v2'' ''audit''
        [[''_id'' \<mapsto> PStr ''z'', ''timestamp'' \<mapsto> PInt 12],
         [''_id'' \<mapsto> PStr ''y'', ''timestamp'' \<mapsto> PInt 10],
         [''_id'' \<mapsto> PStr ''x'', ''timestamp'' \<mapsto> PInt 10]])
     sample_datestring Map.empty None ''v2'' False = Some (Inl KeyError)
   \<and> map_option snd (map_option projr (get_all_events
     (single_page ''v2'' ''audit''
        [[''_id'' \<mapsto> PStr ''z'', ''timestamp'' \<mapsto> PInt 12],
         [''_id'' \<mapsto> PStr ''y'', ''timestamp'' \<mapsto> PInt 10],
         [''_id'' \<mapsto> PStr ''x'', ''timestamp'' \<mapsto> PInt 10]])
     sample_datestring [''audit'' \<mapsto> Ts (PInt 5), ''audit-ids'' \<mapsto> Ids []] None ''v2'' False)) =
     Some [''audit'' \<mapsto> Ts (PInt 12), ''audit-ids'' \<mapsto> Ids [PStr ''x'', PStr ''y'', PStr ''z'']]"
  by (simp add: cycle_defs scenario_defs)

text \<open>
  Claim C8, at the failing input. An audit record that has an identifier and no
  \<^verbatim>\<open>timestamp\<close> key passes \<^verbatim>\<open>dedup_by_id\<close>, and then \<^verbatim>\<open>populate_parsing_rule_fields\<close> raises
  \<^verbatim>\<open>KeyError\<close> at \<^verbatim>\<open>event['timestamp']\<close>, which its \<^verbatim>\<open>except TypeError\<close> does not catch: the
  cycle raises, on either API version and whatever the date-string collaborator does.
\<close>

theorem C8_missing_timestamp_raises:
  "get_all_events (single_page api_version ''audit'' [[''_id'' \<mapsto> PStr ''x'']]) tds
     (checkpoint ''audit'' 5 []) (Some 1000) api_version is_command = Some (Inl KeyError)"
  by (simp add: cycle_defs scenario_defs)

text \<open>
  What \<^verbatim>\<open>populate_parsing_rule_fields\<close> tolerates is a timestamp that is present and
  \<^verbatim>\<open>None\<close>: the record is returned without \<^verbatim>\<open>_time\<close>. An absent key raises.
\<close>

lemma populate_parsing_rule_fields_null_timestamp:
  "e ''timestamp'' = Some PNone \<Longrightarrow>
   populate_parsing_rule_fields tds e event_type = Inr (e(''source_log_event'' \<mapsto> PStr event_type))"
  by (simp add: populate_parsing_rule_fields_def)

lemma populate_parsing_rule_fields_absent_timestamp:
  "e ''timestamp'' = None \<Longrightarrow> populate_parsing_rule_fields tds e event_type = Inl KeyError"
  by (simp add: populate_parsing_rule_fields_def)

text \<open>
  Claim C9, as the code has it. A supported event type has a saved timestamp and iterable
  saved identifiers, accumulates at least one record, and every accumulated record has the
  saved timestamp. Then \<^verbatim>\<open>dedup_by_id\<close> returns a new last run without the timestamp key of
  the event type; it holds the identifier key (the saved identifiers together with those of
  the processed records) when the limit leaves at least one record to process, and is empty
  otherwise. The \<^verbatim>\<open>if events:\<close> block then raises \<^verbatim>\<open>KeyError\<close> at
  \<^verbatim>\<open>new_last_run[event_type]\<close>, whatever the limit, and so does the cycle, unless an earlier
  event type has already raised or its pagination does not return.
\<close>

theorem C9_all_ties_KeyError:
  assumes "last_run event_type = Some saved"
      and "saved_ids last_run event_type = Inr S"
      and "events \<noteq> []"
      and "\<forall>e \<in> set events. is_tie saved e"
      and "event_type \<in> set ALL_SUPPORTED_EVENT_TYPES"
      and "while_loop http api_version event_type last_run (effective_limit limit) is_command [] 0
             = Some (Inr events)"
  shows "(\<exists>delivered nlr.
            dedup_by_id last_run events event_type (effective_limit limit) = Inr (delivered, nlr)
            \<and> nlr event_type = None
            \<and> nlr (ids_key event_type) =
                (if processed events (effective_limit limit) = [] then None
                 else Some (IdSet (S \<union> id_of ` set (processed events (effective_limit limit))))))
       \<and> get_all_events http tds last_run limit api_version is_command =
           (case for_event_types http tds last_run (effective_limit limit) api_version is_command
                   (takeWhile (\<lambda>et. et \<noteq> event_type) ALL_SUPPORTED_EVENT_TYPES) ([], Map.empty) of
              None \<Rightarrow> None
            | Some (Inl e) \<Rightarrow> Some (Inl e)
            | Some (Inr acc) \<Rightarrow> Some (Inl KeyError))"
proof -
  let ?lim = "effective_limit limit"
  let ?P = "processed events ?lim"
  let ?F = "foldl (dedup_next saved event_type) (dedup_init S) ?P"
  have d: "dedup_by_id last_run events event_type ?lim = Inr (new_events ?F, new_last_run ?F)"
    by (rule dedup_by_id_Some [OF assms(1,2)])
  have sub: "set ?P \<subseteq> set events"
    by (auto simp add: processed_def py_slice_to_def dest: in_set_takeD)
  with assms(4) have ties: "filter (\<lambda>e. \<not> is_tie saved e) ?P = []"
    by (auto simp add: filter_empty_conv)
  then have all: "{e \<in> set ?P. is_tie saved e} = set ?P"
    by (auto simp add: filter_empty_conv)
  have ts: "new_last_run ?F event_type = None"
    by (simp add: foldl_new_last_run_ts ties dedup_init_def)
  have ids: "new_last_run ?F (ids_key event_type) =
      (if ?P = [] then None else Some (IdSet (S \<union> id_of ` set ?P)))"
  proof (cases "?P = []")
    case True
    then show ?thesis by (simp add: dedup_init_def)
  next
    case False
    have "new_events_ids ?F = []" by (simp add: foldl_new_events_ids ties dedup_init_def)
    moreover have "last_run_ids ?F = S \<union> id_of ` set ?P"
      by (simp add: foldl_last_run_ids all dedup_init_def)
    ultimately show ?thesis using False by (simp add: foldl_new_last_run_ids [OF False])
  qed
  have raise: "process_events tds last_run ?lim event_type events acc = Inl KeyError"
    if "snd acc event_type = None" for acc
    using that assms(3) d ts by (simp add: process_events_def map_add_def)
  let ?pre = "takeWhile (\<lambda>et. et \<noteq> event_type) ALL_SUPPORTED_EVENT_TYPES"
  let ?post = "dropWhile (\<lambda>et. et \<noteq> event_type) ALL_SUPPORTED_EVENT_TYPES"
  from assms(5) have "?post \<noteq> []" by auto
  then have "hd ?post = event_type" using hd_dropWhile [of "\<lambda>et. et \<noteq> event_type"] by auto
  with \<open>?post \<noteq> []\<close> obtain rest where post: "?post = event_type # rest"
    by (cases ?post) auto
  have split: "ALL_SUPPORTED_EVENT_TYPES = ?pre @ event_type # rest"
    using takeWhile_dropWhile_id [of "\<lambda>et. et \<noteq> event_type" ALL_SUPPORTED_EVENT_TYPES] post
    by simp
  have pre_keys: "\<forall>et \<in> set ?pre. event_type \<noteq> et \<and> event_type \<noteq> ids_key et"
  proof
    fix et assume m: "et \<in> set ?pre"
    then have "et \<noteq> event_type" by (auto dest: set_takeWhileD)
    moreover from m have "et \<in> set ALL_SUPPORTED_EVENT_TYPES" by (auto dest: set_takeWhileD)
    then have "event_type \<noteq> ids_key et" by (rule supported_keys(1) [OF assms(5)])
    ultimately show "event_type \<noteq> et \<and> event_type \<noteq> ids_key et" by auto
  qed
  have tail: "for_event_types http tds last_run ?lim api_version is_command
       (event_type # rest) acc = Some (Inl KeyError)"
    if "for_event_types http tds last_run ?lim api_version is_command ?pre ([], Map.empty)
          = Some (Inr acc)" for acc
  proof -
    from for_event_types_other_keys [OF that pre_keys] have "snd acc event_type = None" by simp
    from raise [OF this] assms(6) show ?thesis by simp
  qed
  have "get_all_events http tds last_run limit api_version is_command =
      for_event_types http tds last_run ?lim api_version is_command
        (?pre @ event_type # rest) ([], Map.empty)"
    using split by (simp add: get_all_events_unfold)
  also have "\<dots> =
     (case for_event_types http tds last_run ?lim api_version is_command ?pre ([], Map.empty) of
        None \<Rightarrow> None
      | Some (Inl e) \<Rightarrow> Some (Inl e)
      | Some (Inr acc) \<Rightarrow> Some (Inl KeyError))"
    unfolding for_event_types_append using tail by (auto split: option.splits sum.splits)
  finally show ?thesis using d ts ids by simp
qed

theorem C9_all_ties_KeyError_witness:
  "dedup_by_id (checkpoint ''audit'' 10 [''a'']) [mk_event ''a'' 10] ''audit'' 1000 =
     Inr ([], [ids_key ''audit'' \<mapsto> IdSet {PStr ''a''}])
   \<and> get_all_events (single_page ''v2'' ''audit'' [mk_event ''a'' 10]) sample_datestring
       (checkpoint ''audit'' 10 [''a'']) (Some 1000) ''v2'' False = Some (Inl KeyError)"
proof -
  have a: "checkpoint ''audit'' 10 [''a''] ''audit'' = Some (Ts (PInt 10))"
    by (simp add: checkpoint_def ids_key_def)
  have b: "saved_ids (checkpoint ''audit'' 10 [''a'']) ''audit'' = Inr {PStr ''a''}"
    by (simp add: saved_ids_def checkpoint_def)
  have c: "[mk_event ''a'' 10] \<noteq> []" by simp
  have d: "\<forall>e \<in> set [mk_event ''a'' 10]. is_tie (Ts (PInt 10)) e"
    by (simp add: scenario_defs)
  have e: "''audit'' \<in> set ALL_SUPPORTED_EVENT_TYPES"
    by (simp add: ALL_SUPPORTED_EVENT_TYPES_def)
  have f: "while_loop (single_page ''v2'' ''audit'' [mk_event ''a'' 10]) ''v2'' ''audit''
      (checkpoint ''audit'' 10 [''a'']) (effective_limit (Some 1000)) False [] 0 =
      Some (Inr [mk_event ''a'' 10])"
    by (simp add: while_loop_single_page MAX_EVENTS_PAGE_SIZE_def)
  have g: "dedup_by_id (checkpoint ''audit'' 10 [''a'']) [mk_event ''a'' 10] ''audit'' 1000 =
     Inr ([], [ids_key ''audit'' \<mapsto> IdSet {PStr ''a''}])"
    by (simp add: scenario_defs)
  have h: "takeWhile (\<lambda>et. et \<noteq> ''audit'') ALL_SUPPORTED_EVENT_TYPES = []"
    by (simp add: ALL_SUPPORTED_EVENT_TYPES_def)
  from C9_all_ties_KeyError [OF a b c d e f, of sample_datestring] h
  have "get_all_events (single_page ''v2'' ''audit'' [mk_event ''a'' 10]) sample_datestring
       (checkpoint ''audit'' 10 [''a'']) (Some 1000) ''v2'' False = Some (Inl KeyError)"
    by simp
  with g show ?thesis by simp
qed

text \<open>
  The claim C9 as stated fails in its first part when the limit is 0: the batch of one record
  of the saved timestamp is accumulated, no record is processed, and the new last run of
  \<^verbatim>\<open>dedup_by_id\<close> is empty, without the identifier key.
\<close>

theorem C9_counterexample:
  "dedup_by_id [''audit'' \<mapsto> Ts (PInt 100), ''audit-ids'' \<mapsto> Ids [PStr ''a'']]
     [[''_id'' \<mapsto> PStr ''a'', ''timestamp'' \<mapsto> PInt 100]] ''audit'' 0 = Inr ([], Map.empty)"
  by (simp add: scenario_defs)

section \<open>Pagination\<close>

lemma while_body_Some:
  assumes "request_page http api_version event_type last_run skip limit is_command =
             Inr (Some results)"
  shows "while_body http api_version event_type last_run limit is_command events skip =
     (if int (length results) < MAX_EVENTS_PAGE_SIZE \<or> results = []
         \<or> int (length events + length results) = MAX_SKIP
      then Inr (Break (events @ results))
      else Inr (Continue (events @ results)
             (if int (length results) = MAX_EVENTS_PAGE_SIZE
              then skip + MAX_EVENTS_PAGE_SIZE else skip)))"
  using assms by (simp add: while_body_def Let_def)

lemma while_body_None:
  assumes "request_page http api_version event_type last_run skip limit is_command = Inr None"
  shows "while_body http api_version event_type last_run limit is_command events skip =
           Inr (Break events)"
  using assms by (simp add: while_body_def)

lemma while_body_Inl:
  assumes "request_page http api_version event_type last_run skip limit is_command = Inl e"
  shows "while_body http api_version event_type last_run limit is_command events skip = Inl e"
  using assms by (simp add: while_body_def)

text \<open>
  When no page is larger than the maximal page size, the loop returns after at most \<open>n\<close>
  further pages, where \<open>n\<close> pages of the maximal size are what is missing to the cap.
\<close>

lemma while_loop_bounded:
  assumes pages: "\<forall>sk results.
      request_page http api_version event_type last_run sk limit is_command = Inr (Some results)
      \<longrightarrow> int (length results) \<le> MAX_EVENTS_PAGE_SIZE"
  shows "int (length events) + int n * MAX_EVENTS_PAGE_SIZE = MAX_SKIP \<Longrightarrow> 0 < n \<Longrightarrow>
     \<exists>r. while_loop http api_version event_type last_run limit is_command events skip = Some r
         \<and> (\<forall>evs. r = Inr evs \<longrightarrow> int (length evs) \<le> MAX_SKIP)"
proof (induction n arbitrary: events skip)
  case 0
  then show ?case by simp
next
  case (Suc n)
  have pos: "0 \<le> MAX_EVENTS_PAGE_SIZE" by (simp add: MAX_EVENTS_PAGE_SIZE_def)
  from Suc.prems(1) have tot:
    "int (length events) + int n * MAX_EVENTS_PAGE_SIZE + MAX_EVENTS_PAGE_SIZE = MAX_SKIP"
    by (simp add: algebra_simps)
  have npos: "0 \<le> int n * MAX_EVENTS_PAGE_SIZE" using pos by simp
  show ?case
  proof (cases "request_page http api_version event_type last_run skip limit is_command")
    case (Inl e)
    from while_loop_Inl [OF while_body_Inl [OF Inl]] show ?thesis by simp
  next
    case (Inr page)
    show ?thesis
    proof (cases page)
      case None
      with Inr have "while_loop http api_version event_type last_run limit is_command events skip
          = Some (Inr events)"
        by (intro while_loop_Break while_body_None) simp
      moreover from tot npos pos have "int (length events) \<le> MAX_SKIP" by linarith
      ultimately show ?thesis by simp
    next
      case (Some results)
      with Inr have rp: "request_page http api_version event_type last_run skip limit is_command
          = Inr (Some results)" by simp
      with pages have le: "int (length results) \<le> MAX_EVENTS_PAGE_SIZE" by blast
      show ?thesis
      proof (cases "int (length results) < MAX_EVENTS_PAGE_SIZE \<or> results = []
                     \<or> int (length events + length results) = MAX_SKIP")
        case True
        then have "while_loop http api_version event_type last_run limit is_command events skip
            = Some (Inr (events @ results))"
          by (intro while_loop_Break) (simp add: while_body_Some [OF rp])
        moreover have "int (length events) + int (length results) \<le> MAX_SKIP"
          using tot npos le by linarith
        then have "int (length (events @ results)) \<le> MAX_SKIP" by simp
        ultimately show ?thesis by simp
      next
        case False
        with le have full: "int (length results) = MAX_EVENTS_PAGE_SIZE"
          and notcap: "int (length events + length results) \<noteq> MAX_SKIP" by auto
        from False have step:
          "while_loop http api_version event_type last_run limit is_command events skip =
           while_loop http api_version event_type last_run limit is_command (events @ results)
             (skip + MAX_EVENTS_PAGE_SIZE)"
          by (intro while_loop_Continue) (simp add: while_body_Some [OF rp] full)
        from tot full have tot': "int (length (events @ results)) + int n * MAX_EVENTS_PAGE_SIZE
            = MAX_SKIP" by simp
        with notcap have "0 < n" by (cases n) auto
        from Suc.IH [OF tot' this] step show ?thesis by simp
      qed
    qed
  qed
qed

text \<open>
  Claim C7, as the code has it. One iteration of the pagination loop of an event type leaves
  the loop exactly when the remote reports an unsuccessful page, or the page has fewer
  records than the fixed maximal page size of 10 000 (whatever page size the request asked
  for) or no records, or the accumulated total equals 50 000. After a page of exactly 10 000
  records that does not end the loop, the next iteration runs with the offset advanced by
  10 000. When no page has more than 10 000 records, the loop started at offset 0 returns
  (or raises the transport's exception), and what it returns has at most 50 000 records.
\<close>

theorem C7_pagination:
  "((\<exists>evs. while_body http api_version event_type last_run limit is_command events skip
            = Inr (Break evs)) \<longleftrightarrow>
      (request_page http api_version event_type last_run skip limit is_command = Inr None
       \<or> (\<exists>results.
            request_page http api_version event_type last_run skip limit is_command
              = Inr (Some results)
            \<and> (int (length results) < MAX_EVENTS_PAGE_SIZE \<or> results = []
               \<or> int (length events + length results) = MAX_SKIP))))
   \<and> (request_page http api_version event_type last_run skip limit is_command = Inr (Some page)
        \<and> int (length page) = MAX_EVENTS_PAGE_SIZE
        \<and> int (length events + length page) \<noteq> MAX_SKIP
      \<longrightarrow> while_loop http api_version event_type last_run limit is_command events skip =
          while_loop http api_version event_type last_run limit is_command (events @ page)
            (skip + MAX_EVENTS_PAGE_SIZE))
   \<and> ((\<forall>sk results.
          request_page http api_version event_type last_run sk limit is_command
            = Inr (Some results)
          \<longrightarrow> int (length results) \<le> MAX_EVENTS_PAGE_SIZE)
      \<longrightarrow> (\<exists>r. while_loop http api_version event_type last_run limit is_command [] 0 = Some r
              \<and> (\<forall>evs. r = Inr evs \<longrightarrow> int (length evs) \<le> MAX_SKIP)))"
proof (intro conjI impI)
  show "(\<exists>evs. while_body http api_version event_type last_run limit is_command events skip
            = Inr (Break evs)) \<longleftrightarrow>
      (request_page http api_version event_type last_run skip limit is_command = Inr None
       \<or> (\<exists>results.
            request_page http api_version event_type last_run skip limit is_command
              = Inr (Some results)
            \<and> (int (length results) < MAX_EVENTS_PAGE_SIZE \<or> results = []
               \<or> int (length events + length results) = MAX_SKIP)))"
  proof (cases "request_page http api_version event_type last_run skip limit is_command")
    case (Inl e)
    then show ?thesis by (simp add: while_body_Inl)
  next
    case (Inr page)
    then show ?thesis
      by (cases page) (auto simp add: while_body_None while_body_Some)
  qed
next
  assume a: "request_page http api_version event_type last_run skip limit is_command
        = Inr (Some page)
      \<and> int (length page) = MAX_EVENTS_PAGE_SIZE
      \<and> int (length events + length page) \<noteq> MAX_SKIP"
  then have "while_body http api_version event_type last_run limit is_command events skip =
      Inr (Continue (events @ page) (skip + MAX_EVENTS_PAGE_SIZE))"
    by (auto simp add: while_body_Some MAX_EVENTS_PAGE_SIZE_def)
  then show "while_loop http api_version event_type last_run limit is_command events skip =
          while_loop http api_version event_type last_run limit is_command (events @ page)
            (skip + MAX_EVENTS_PAGE_SIZE)"
    by (rule while_loop_Continue)
next
  assume pages: "\<forall>sk results.
      request_page http api_version event_type last_run sk limit is_command = Inr (Some results)
      \<longrightarrow> int (length results) \<le> MAX_EVENTS_PAGE_SIZE"
  have "int (length ([]::event list)) + int 5 * MAX_EVENTS_PAGE_SIZE = MAX_SKIP"
    by (simp add: MAX_EVENTS_PAGE_SIZE_def MAX_SKIP_def)
  from while_loop_bounded [OF pages this, of 0]
  show "\<exists>r. while_loop http api_version event_type last_run limit is_command [] 0 = Some r
              \<and> (\<forall>evs. r = Inr evs \<longrightarrow> int (length evs) \<le> MAX_SKIP)"
    by simp
qed

text \<open>
  A remote that holds 10 000 records: the first page is full, the loop goes round with the
  offset 10 000, the second page is empty, and the loop returns the 10 000 records.
\<close>

theorem C7_pagination_witness:
  "while_loop (windowed (replicate 10000 (mk_event ''a'' 1))) ''v2'' ''audit''
     (checkpoint ''audit'' 0 []) 1000 False [] 0 = Some (Inr (replicate 10000 (mk_event ''a'' 1)))
   \<and> int (length (replicate 10000 (mk_event ''a'' 1))) \<le> MAX_SKIP"
proof -
  let ?http = "windowed (replicate 10000 (mk_event ''a'' 1))"
  let ?lr = "checkpoint ''audit'' 0 []"
  have page0: "request_page ?http ''v2'' ''audit'' ?lr 0 1000 False =
      Inr (Some (replicate 10000 (mk_event ''a'' 1)))"
    by (simp add: request_page_def get_events_request_v2_def windowed_def v2_page_def
          MAX_EVENTS_PAGE_SIZE_def)
  have page1: "request_page ?http ''v2'' ''audit'' ?lr 10000 1000 False = Inr (Some [])"
    by (simp add: request_page_def get_events_request_v2_def windowed_def v2_page_def
          MAX_EVENTS_PAGE_SIZE_def)
  have body1: "while_body ?http ''v2'' ''audit'' ?lr 1000 False
      (replicate 10000 (mk_event ''a'' 1)) 10000 = Inr (Break (replicate 10000 (mk_event ''a'' 1)))"
    by (simp add: while_body_Some [OF page1] MAX_EVENTS_PAGE_SIZE_def)
  have full: "request_page ?http ''v2'' ''audit'' ?lr 0 1000 False =
        Inr (Some (replicate 10000 (mk_event ''a'' 1)))
      \<and> int (length (replicate 10000 (mk_event ''a'' 1))) = MAX_EVENTS_PAGE_SIZE
      \<and> int (length ([]::event list) + length (replicate 10000 (mk_event ''a'' 1))) \<noteq> MAX_SKIP"
    using page0 by (simp add: MAX_EVENTS_PAGE_SIZE_def MAX_SKIP_def)
  from C7_pagination [of ?http "''v2''" "''audit''" ?lr 1000 False "[]" 0
      "replicate 10000 (mk_event ''a'' 1)"] full
  have "while_loop ?http ''v2'' ''audit'' ?lr 1000 False [] 0 =
        while_loop ?http ''v2'' ''audit'' ?lr 1000 False
          ([] @ replicate 10000 (mk_event ''a'' 1)) (0 + MAX_EVENTS_PAGE_SIZE)"
    by blast
  then have "while_loop ?http ''v2'' ''audit'' ?lr 1000 False [] 0 =
        while_loop ?http ''v2'' ''audit'' ?lr 1000 False (replicate 10000 (mk_event ''a'' 1)) 10000"
    by (simp add: MAX_EVENTS_PAGE_SIZE_def)
  with while_loop_Break [OF body1] show ?thesis by (simp add: MAX_SKIP_def)
qed

text \<open>
  The claim C7 as stated fails in command mode, where the page size of the request is the
  caller's limit. The remote holds three records and serves the window asked for; with the
  limit 2 the first page has two records, a full page of the size asked for, not empty, the
  total is 2, and the loop ends with these two records.
\<close>

theorem C7_counterexample:
  "request_page (windowed [mk_event ''c'' 3, mk_event ''b'' 2, mk_event ''a'' 1]) ''v2'' ''audit''
     Map.empty 0 2 True = Inr (Some [mk_event ''c'' 3, mk_event ''b'' 2])
   \<and> while_body (windowed [mk_event ''c'' 3, mk_event ''b'' 2, mk_event ''a'' 1]) ''v2'' ''audit''
       Map.empty 2 True [] 0 = Inr (Break [mk_event ''c'' 3, mk_event ''b'' 2])
   \<and> while_loop (windowed [mk_event ''c'' 3, mk_event ''b'' 2, mk_event ''a'' 1]) ''v2'' ''audit''
       Map.empty 2 True [] 0 = Some (Inr [mk_event ''c'' 3, mk_event ''b'' 2])"
proof -
  have page: "request_page (windowed [mk_event ''c'' 3, mk_event ''b'' 2, mk_event ''a'' 1])
      ''v2'' ''audit'' Map.empty 0 2 True = Inr (Some [mk_event ''c'' 3, mk_event ''b'' 2])"
    by (simp add: request_page_def get_events_request_v2_def windowed_def v2_page_def
          numeral_2_eq_2)
  have body: "while_body (windowed [mk_event ''c'' 3, mk_event ''b'' 2, mk_event ''a'' 1])
      ''v2'' ''audit'' Map.empty 2 True [] 0 = Inr (Break [mk_event ''c'' 3, mk_event ''b'' 2])"
    by (simp add: while_body_Some [OF page] MAX_EVENTS_PAGE_SIZE_def)
  from page body while_loop_Break [OF body] show ?thesis by simp
qed

section \<open>One event type in one cycle\<close>

lemma populate_parsing_rule_fields_Inr:
  assumes "populate_parsing_rule_fields tds e event_type = Inr e1"
  shows "id_of e1 = id_of e" and "timestamp_of e1 = timestamp_of e"
    and "of_event_type event_type e1"
  using assms
  by (auto simp add: populate_parsing_rule_fields_def Let_def id_of_def timestamp_of_def
        py_get_def of_event_type_def split: option.splits sum.splits pyerr.splits)

lemma populate_all_Inr:
  "populate_all tds D event_type = Inr D1 \<Longrightarrow>
   map id_of D1 = map id_of D \<and> map timestamp_of D1 = map timestamp_of D
   \<and> (\<forall>e \<in> set D1. of_event_type event_type e)"
proof (induction D arbitrary: D1)
  case Nil
  then show ?case by simp
next
  case (Cons e D)
  from Cons.prems obtain e1 rest1 where
    e1: "populate_parsing_rule_fields tds e event_type = Inr e1"
    and r: "populate_all tds D event_type = Inr rest1"
    and D1: "D1 = e1 # rest1"
    by (auto split: sum.splits)
  from Cons.IH [OF r] populate_parsing_rule_fields_Inr [OF e1] D1 show ?case by simp
qed

lemma process_events_Inr:
  assumes "process_events tds last_run limit event_type events acc = Inr acc1"
      and "events \<noteq> []"
  shows "\<exists>D plr D1. dedup_by_id last_run events event_type limit = Inr (D, plr)
           \<and> populate_all tds D event_type = Inr D1
           \<and> acc1 = (fst acc @ D1, snd acc ++ plr)
           \<and> (snd acc ++ plr) event_type \<noteq> None"
  using assms
  by (auto simp add: process_events_def Let_def split: sum.splits if_splits prod.splits)

lemma of_event_type_inject:
  "of_event_type a e \<Longrightarrow> of_event_type b e \<Longrightarrow> a = b"
  by (simp add: of_event_type_def)

lemma for_event_types_tags:
  "for_event_types http tds last_run limit api_version is_command ets acc = Some (Inr acc1) \<Longrightarrow>
   \<exists>new. fst acc1 = fst acc @ new \<and> (\<forall>e \<in> set new. \<exists>c \<in> set ets. of_event_type c e)"
proof (induction ets arbitrary: acc)
  case Nil
  then show ?case by simp
next
  case (Cons et ets)
  from Cons.prems obtain events acc2 where
    p: "process_events tds last_run limit et events acc = Inr acc2"
    and r: "for_event_types http tds last_run limit api_version is_command ets acc2 = Some (Inr acc1)"
    by (auto split: option.splits sum.splits)
  have "\<exists>new2. fst acc2 = fst acc @ new2 \<and> (\<forall>e \<in> set new2. of_event_type et e)"
  proof (cases "events = []")
    case True
    with p show ?thesis by simp
  next
    case False
    from process_events_Inr [OF p False] obtain D plr D1 where
      "populate_all tds D et = Inr D1" and "acc2 = (fst acc @ D1, snd acc ++ plr)"
      by (elim exE conjE)
    with populate_all_Inr [of tds D et D1] show ?thesis by auto
  qed
  then obtain new2 where n2: "fst acc2 = fst acc @ new2" "\<forall>e \<in> set new2. of_event_type et e"
    by blast
  from Cons.IH [OF r] obtain new where
    n: "fst acc1 = fst acc2 @ new" "\<forall>e \<in> set new. \<exists>c \<in> set ets. of_event_type c e" by blast
  from n n2 have "fst acc1 = fst acc @ (new2 @ new)" by simp
  moreover from n n2 have "\<forall>e \<in> set (new2 @ new). \<exists>c \<in> set (et # ets). of_event_type c e"
    by auto
  ultimately show ?case by blast
qed

lemma filter_tags_empty:
  assumes "\<forall>e \<in> set new. \<exists>c \<in> set ets. of_event_type c e" and "event_type \<notin> set ets"
  shows "filter (of_event_type event_type) new = []"
  using assms by (auto simp add: filter_empty_conv dest: of_event_type_inject)

text \<open>
  What a cycle that returns does for one supported event type: nothing when the event type
  accumulates no records; otherwise the delivered records of the event type are the result
  of \<^verbatim>\<open>dedup_by_id\<close> after \<^verbatim>\<open>populate_parsing_rule_fields\<close>, and the two keys of the event type
  in the new last run are those of \<^verbatim>\<open>dedup_by_id\<close>, the timestamp being present.
\<close>

lemma get_all_events_event_type:
  assumes run: "get_all_events http tds last_run limit api_version is_command =
                  Some (Inr (events, nlr))"
      and mem: "event_type \<in> set ALL_SUPPORTED_EVENT_TYPES"
  shows "\<exists>B. while_loop http api_version event_type last_run (effective_limit limit)
                is_command [] 0 = Some (Inr B)
           \<and> (if B = []
               then filter (of_event_type event_type) events = []
                    \<and> nlr event_type = None \<and> nlr (ids_key event_type) = None
               else \<exists>D plr D1.
                      dedup_by_id last_run B event_type (effective_limit limit) = Inr (D, plr)
                      \<and> populate_all tds D event_type = Inr D1
                      \<and> filter (of_event_type event_type) events = D1
                      \<and> plr event_type \<noteq> None
                      \<and> nlr event_type = plr event_type
                      \<and> nlr (ids_key event_type) = plr (ids_key event_type))"
proof -
  let ?lim = "effective_limit limit"
  let ?pre = "takeWhile (\<lambda>et. et \<noteq> event_type) ALL_SUPPORTED_EVENT_TYPES"
  let ?post = "dropWhile (\<lambda>et. et \<noteq> event_type) ALL_SUPPORTED_EVENT_TYPES"
  from mem have "?post \<noteq> []" by auto
  then have "hd ?post = event_type" using hd_dropWhile [of "\<lambda>et. et \<noteq> event_type"] by auto
  with \<open>?post \<noteq> []\<close> obtain rest where post: "?post = event_type # rest"
    by (cases ?post) auto
  have split: "ALL_SUPPORTED_EVENT_TYPES = ?pre @ event_type # rest"
    using takeWhile_dropWhile_id [of "\<lambda>et. et \<noteq> event_type" ALL_SUPPORTED_EVENT_TYPES] post
    by simp
  from distinct_supported split have "distinct (?pre @ event_type # rest)" by simp
  then have notin: "event_type \<notin> set ?pre" "event_type \<notin> set rest" by auto
  have sub: "set ?pre \<subseteq> set ALL_SUPPORTED_EVENT_TYPES" "set rest \<subseteq> set ALL_SUPPORTED_EVENT_TYPES"
    using split by (metis Un_iff set_append subsetI, metis Un_iff list.set_intros(2) set_append subsetI)
  have keys: "\<forall>et \<in> set ets. k \<noteq> et \<and> k \<noteq> ids_key et"
    if "set ets \<subseteq> set ALL_SUPPORTED_EVENT_TYPES" and "event_type \<notin> set ets"
      and "k = event_type \<or> k = ids_key event_type" for ets k
  proof
    fix et assume et: "et \<in> set ets"
    with that(1) have m: "et \<in> set ALL_SUPPORTED_EVENT_TYPES" by auto
    from et that(2) have ne: "et \<noteq> event_type" by auto
    from that(3) show "k \<noteq> et \<and> k \<noteq> ids_key et"
      using ne supported_keys(1) [OF mem m] supported_keys(1) [OF m mem]
        supported_keys(2) [OF mem m] by auto
  qed
  from run split have all:
    "for_event_types http tds last_run ?lim api_version is_command
       (?pre @ event_type # rest) ([], Map.empty) = Some (Inr (events, nlr))"
    by (simp add: get_all_events_unfold)
  then obtain acc0 where
    pre: "for_event_types http tds last_run ?lim api_version is_command ?pre ([], Map.empty)
            = Some (Inr acc0)"
    and tl: "for_event_types http tds last_run ?lim api_version is_command (event_type # rest) acc0
            = Some (Inr (events, nlr))"
    unfolding for_event_types_append by (auto split: option.splits sum.splits)
  from tl obtain B acc2 where
    w: "while_loop http api_version event_type last_run ?lim is_command [] 0 = Some (Inr B)"
    and p: "process_events tds last_run ?lim event_type B acc0 = Inr acc2"
    and r: "for_event_types http tds last_run ?lim api_version is_command rest acc2
            = Some (Inr (events, nlr))"
    by (auto split: option.splits sum.splits)
  from for_event_types_tags [OF pre] obtain new0 where
    n0: "fst acc0 = new0" "\<forall>e \<in> set new0. \<exists>c \<in> set ?pre. of_event_type c e" by auto
  from for_event_types_tags [OF r] obtain new2 where
    n2: "events = fst acc2 @ new2" "\<forall>e \<in> set new2. \<exists>c \<in> set rest. of_event_type c e" by auto
  have f0: "filter (of_event_type event_type) new0 = []"
    by (rule filter_tags_empty [OF n0(2) notin(1)])
  have f2: "filter (of_event_type event_type) new2 = []"
    by (rule filter_tags_empty [OF n2(2) notin(2)])
  have k0: "snd acc0 k = None" if "k = event_type \<or> k = ids_key event_type" for k
    using for_event_types_other_keys [OF pre keys [OF sub(1) notin(1) that]] by simp
  have k2: "nlr k = snd acc2 k" if "k = event_type \<or> k = ids_key event_type" for k
    using for_event_types_other_keys [OF r keys [OF sub(2) notin(2) that]] by simp
  show ?thesis
  proof (cases "B = []")
    case True
    with p have "acc2 = acc0" by simp
    with n0 n2 f0 f2 k0 k2 True w show ?thesis by simp
  next
    case False
    from process_events_Inr [OF p False] obtain D plr D1 where
      d: "dedup_by_id last_run B event_type ?lim = Inr (D, plr)"
      and pa: "populate_all tds D event_type = Inr D1"
      and a2: "acc2 = (fst acc0 @ D1, snd acc0 ++ plr)"
      and ts: "(snd acc0 ++ plr) event_type \<noteq> None" by (elim exE conjE)
    from ts k0 have ts': "plr event_type \<noteq> None" by (auto simp add: map_add_def split: option.splits)
    from populate_all_Inr [OF pa] have "filter (of_event_type event_type) D1 = D1" by simp
    with n0 n2 a2 f0 f2 have ev: "filter (of_event_type event_type) events = D1" by simp
    have "nlr k = plr k" if "k = event_type \<or> k = ids_key event_type" for k
      using k2 [OF that] k0 [OF that] a2 by (simp add: map_add_def split: option.splits)
    with w False d pa ev ts' show ?thesis by auto
  qed
qed

section \<open>The checkpoint invariant across cycles\<close>

lemma is_tie_int:
  "timestamp_of e = PInt (int_timestamp e) \<Longrightarrow> is_tie (Ts (PInt T)) e \<longleftrightarrow> int_timestamp e = T"
  by (auto simp add: is_tie_def)

lemma int_timestamp_cong:
  "timestamp_of d = timestamp_of e \<Longrightarrow> int_timestamp d = int_timestamp e"
  by (simp add: int_timestamp_def)

lemma same_id_and_timestamp:
  assumes "id_and_timestamp ` set D = id_and_timestamp ` set F" and "d \<in> set D"
  shows "\<exists>e \<in> set F. id_of e = id_of d \<and> timestamp_of e = timestamp_of d
           \<and> int_timestamp e = int_timestamp d"
proof -
  from assms have "id_and_timestamp d \<in> id_and_timestamp ` set F" by blast
  then obtain e where e: "e \<in> set F" and k: "id_and_timestamp d = id_and_timestamp e" by blast
  from k have "id_of e = id_of d" and t: "timestamp_of e = timestamp_of d"
    by (simp_all add: id_and_timestamp_def)
  moreover from t have "int_timestamp e = int_timestamp d" by (rule int_timestamp_cong)
  ultimately show ?thesis using e by blast
qed

text \<open>
  \<^verbatim>\<open>dedup_by_id\<close> on a batch whose processed records have integer timestamps and pairwise
  different identifiers, from an integer saved timestamp \<open>T\<close> and the saved identifiers \<open>S\<close>.
\<close>

lemma dedup_by_id_int:
  assumes d: "dedup_by_id last_run B event_type limit = Inr (D, plr)"
      and lr: "last_run event_type = Some (Ts (PInt T))"
      and S: "saved_ids last_run event_type = Inr S"
      and ints: "\<forall>e \<in> set (processed B limit). timestamp_of e = PInt (int_timestamp e)"
      and dist: "distinct (map id_of (processed B limit))"
  shows "D = map with_event_id
               (filter (\<lambda>e. int_timestamp e \<noteq> T \<or> id_of e \<notin> S) (processed B limit))"
    and "plr event_type =
           (if filter (\<lambda>e. int_timestamp e \<noteq> T) (processed B limit) = [] then None
            else Some (Ts (PInt (int_timestamp
                   (last (filter (\<lambda>e. int_timestamp e \<noteq> T) (processed B limit)))))))"
    and "filter (\<lambda>e. int_timestamp e \<noteq> T) (processed B limit) \<noteq> [] \<Longrightarrow>
         plr (ids_key event_type) =
           Some (Ids (map id_of (filter (\<lambda>e. int_timestamp e \<noteq> T) (processed B limit))))"
proof -
  let ?P = "processed B limit"
  let ?F = "foldl (dedup_next (Ts (PInt T)) event_type) (dedup_init S) ?P"
  from d dedup_by_id_Some [OF lr S, of B limit]
  have D: "D = new_events ?F" and plr: "plr = new_last_run ?F" by simp_all
  have f1: "filter (\<lambda>e. \<not> is_tie (Ts (PInt T)) e \<or> id_of e \<notin> S) ?P =
            filter (\<lambda>e. int_timestamp e \<noteq> T \<or> id_of e \<notin> S) ?P"
    using ints by (intro filter_cong) (auto simp add: is_tie_int)
  have f2: "filter (\<lambda>e. \<not> is_tie (Ts (PInt T)) e) ?P = filter (\<lambda>e. int_timestamp e \<noteq> T) ?P"
    using ints by (intro filter_cong) (auto simp add: is_tie_int)
  show "D = map with_event_id (filter (\<lambda>e. int_timestamp e \<noteq> T \<or> id_of e \<notin> S) ?P)"
  proof -
    have "new_events (dedup_init S) = []" by (simp add: dedup_init_def)
    with foldl_new_events_distinct [OF dist, of "Ts (PInt T)" event_type "dedup_init S"]
    have "D = map with_event_id
        (filter (\<lambda>e. \<not> is_tie (Ts (PInt T)) e \<or> id_of e \<notin> last_run_ids (dedup_init S)) ?P)"
      unfolding D by (simp only: append_Nil)
    also have "last_run_ids (dedup_init S) = S" by (simp add: dedup_init_def)
    finally show ?thesis by (simp only: f1)
  qed
  let ?N = "filter (\<lambda>e. int_timestamp e \<noteq> T) ?P"
  have lastN: "timestamp_of (last ?N) = PInt (int_timestamp (last ?N))" if "?N \<noteq> []"
  proof -
    from that have "last ?N \<in> set ?N" by (rule last_in_set)
    then have "last ?N \<in> set ?P" by simp
    with ints show ?thesis by blast
  qed
  show "plr event_type = (if ?N = [] then None else Some (Ts (PInt (int_timestamp (last ?N)))))"
    unfolding plr using lastN by (simp add: foldl_new_last_run_ts f2 dedup_init_def)
  show "plr (ids_key event_type) = Some (Ids (map id_of ?N))" if ne: "?N \<noteq> []"
  proof -
    from ne have P: "?P \<noteq> []" by auto
    have "new_events_ids ?F = map id_of ?N"
      by (simp add: foldl_new_events_ids f2 dedup_init_def)
    with ne show ?thesis unfolding plr by (simp add: foldl_new_last_run_ids [OF P])
  qed
qed

text \<open>
  The step of the invariant, on lists alone. \<open>prev\<close> are the records delivered so far, \<open>P\<close> the
  records processed now, \<open>D\<close> the records delivered now (they have the identifiers and
  timestamps of the processed records that pass the test of \<^verbatim>\<open>dedup_by_id\<close>), \<open>T\<close> and \<open>S\<close>
  the saved timestamp and identifiers.
\<close>

lemma invariant_step:
  assumes ints_prev: "\<forall>d \<in> set prev. timestamp_of d = PInt (int_timestamp d)"
      and ints_P: "\<forall>e \<in> set P. timestamp_of e = PInt (int_timestamp e)"
      and sorted_P: "sorted (map int_timestamp P)"
      and dist_P: "distinct (map id_of P)"
      and stable: "\<forall>e \<in> set prev \<union> set P. \<forall>e' \<in> set prev \<union> set P.
                     id_of e = id_of e' \<longrightarrow> int_timestamp e = int_timestamp e'"
      and dist_prev: "distinct (map id_of prev)"
      and S_sub: "S \<subseteq> id_of ` set prev"
      and le_T: "\<forall>d \<in> set prev. int_timestamp d \<le> T"
      and at_T: "\<forall>d \<in> set prev. int_timestamp d = T \<longrightarrow> id_of d \<in> S"
      and ge_T: "\<forall>e \<in> set P. T \<le> int_timestamp e"
      and D_ids: "map id_of D = map id_of (filter (\<lambda>e. int_timestamp e \<noteq> T \<or> id_of e \<notin> S) P)"
      and D_keys: "id_and_timestamp ` set D =
                   id_and_timestamp ` set (filter (\<lambda>e. int_timestamp e \<noteq> T \<or> id_of e \<notin> S) P)"
  shows "distinct (map id_of (prev @ D))"
    and "id_and_timestamp ` set (prev @ D) = id_and_timestamp ` set prev \<union> id_and_timestamp ` set P"
    and "\<forall>d \<in> set (prev @ D). timestamp_of d = PInt (int_timestamp d)"
    and "filter (\<lambda>e. int_timestamp e \<noteq> T) P \<noteq> [] \<Longrightarrow>
         T < int_timestamp (last (filter (\<lambda>e. int_timestamp e \<noteq> T) P))
         \<and> last (filter (\<lambda>e. int_timestamp e \<noteq> T) P) \<in> set P
         \<and> set (map id_of (filter (\<lambda>e. int_timestamp e \<noteq> T) P)) \<subseteq> id_of ` set (prev @ D)
         \<and> (\<forall>d \<in> set (prev @ D).
              int_timestamp d \<le> int_timestamp (last (filter (\<lambda>e. int_timestamp e \<noteq> T) P)))
         \<and> (\<forall>d \<in> set (prev @ D).
              int_timestamp d = int_timestamp (last (filter (\<lambda>e. int_timestamp e \<noteq> T) P))
              \<longrightarrow> id_of d \<in> set (map id_of (filter (\<lambda>e. int_timestamp e \<noteq> T) P)))"
proof -
  let ?F = "filter (\<lambda>e. int_timestamp e \<noteq> T \<or> id_of e \<notin> S) P"
  let ?N = "filter (\<lambda>e. int_timestamp e \<noteq> T) P"
  have like: "\<exists>e \<in> set ?F. id_of e = id_of d \<and> timestamp_of e = timestamp_of d
                \<and> int_timestamp e = int_timestamp d" if "d \<in> set D" for d
    by (rule same_id_and_timestamp [OF D_keys that])
  have F_sub: "set ?F \<subseteq> set P" by auto
  have st: "int_timestamp a = int_timestamp b"
    if "a \<in> set prev \<union> set P" and "b \<in> set prev \<union> set P" and "id_of a = id_of b" for a b
    using stable that by blast
  show dist: "distinct (map id_of (prev @ D))"
  proof -
    have "distinct (map id_of ?F)" using dist_P by (rule distinct_map_filter)
    then have dD: "distinct (map id_of D)" by (simp add: D_ids)
    have "id_of ` set prev \<inter> id_of ` set D = {}"
    proof (rule ccontr)
      assume "id_of ` set prev \<inter> id_of ` set D \<noteq> {}"
      then obtain p d where p: "p \<in> set prev" and dm: "d \<in> set D" and eq: "id_of p = id_of d"
        by auto
      from like [OF dm] obtain e where e: "e \<in> set ?F" and ide: "id_of e = id_of d" by blast
      from e have eP: "e \<in> set P" and cond: "int_timestamp e \<noteq> T \<or> id_of e \<notin> S" by auto
      from p eP have "p \<in> set prev \<union> set P" "e \<in> set prev \<union> set P" by simp_all
      then have ts: "int_timestamp p = int_timestamp e" using eq ide by (intro st) simp_all
      from le_T p have "int_timestamp p \<le> T" by (rule bspec)
      moreover from ge_T eP have "T \<le> int_timestamp e" by (rule bspec)
      ultimately have pT: "int_timestamp p = T" and eT: "int_timestamp e = T" using ts by auto
      from at_T p pT have "id_of p \<in> S" by blast
      with cond eT eq ide show False by simp
    qed
    with dist_prev dD show ?thesis by simp
  qed
  show keys: "id_and_timestamp ` set (prev @ D) =
      id_and_timestamp ` set prev \<union> id_and_timestamp ` set P"
  proof -
    have "id_and_timestamp e \<in> id_and_timestamp ` set prev \<union> id_and_timestamp ` set ?F"
      if eP: "e \<in> set P" for e
    proof (cases "int_timestamp e \<noteq> T \<or> id_of e \<notin> S")
      case True
      with eP have "e \<in> set ?F" by simp
      then have "id_and_timestamp e \<in> id_and_timestamp ` set ?F" by (rule imageI)
      then show ?thesis by (rule UnI2)
    next
      case False
      then have eT: "int_timestamp e = T" and "id_of e \<in> S" by simp_all
      with S_sub have "id_of e \<in> id_of ` set prev" by blast
      then obtain p where p: "p \<in> set prev" and eq: "id_of p = id_of e" by (auto simp add: image_iff)
      from p eP have "p \<in> set prev \<union> set P" "e \<in> set prev \<union> set P" by simp_all
      then have "int_timestamp p = int_timestamp e" using eq by (intro st) simp_all
      moreover from ints_prev p have "timestamp_of p = PInt (int_timestamp p)" by (rule bspec)
      moreover from ints_P eP have "timestamp_of e = PInt (int_timestamp e)" by (rule bspec)
      ultimately have "timestamp_of p = timestamp_of e" by simp
      with eq have "id_and_timestamp e = id_and_timestamp p" by (simp add: id_and_timestamp_def)
      then have "id_and_timestamp e \<in> id_and_timestamp ` set prev" using p by (rule image_eqI)
      then show ?thesis by (rule UnI1)
    qed
    then have A: "id_and_timestamp ` set P \<subseteq>
        id_and_timestamp ` set prev \<union> id_and_timestamp ` set ?F"
      by (intro image_subsetI)
    have B: "id_and_timestamp ` set ?F \<subseteq> id_and_timestamp ` set P"
      using F_sub by (rule image_mono)
    have C: "id_and_timestamp ` set (prev @ D) =
        id_and_timestamp ` set prev \<union> id_and_timestamp ` set ?F"
      by (simp only: set_append image_Un D_keys)
    from B have "id_and_timestamp ` set prev \<union> id_and_timestamp ` set ?F \<subseteq>
        id_and_timestamp ` set prev \<union> id_and_timestamp ` set P"
      by (intro Un_mono subset_refl)
    moreover from A have "id_and_timestamp ` set prev \<union> id_and_timestamp ` set P \<subseteq>
        id_and_timestamp ` set prev \<union> id_and_timestamp ` set ?F"
      by (intro Un_least Un_upper1)
    ultimately show ?thesis unfolding C by (rule equalityI)
  qed
  show ints: "\<forall>d \<in> set (prev @ D). timestamp_of d = PInt (int_timestamp d)"
  proof
    fix d assume "d \<in> set (prev @ D)"
    then consider "d \<in> set prev" | "d \<in> set D" by auto
    then show "timestamp_of d = PInt (int_timestamp d)"
    proof cases
      case 1
      with ints_prev show ?thesis by blast
    next
      case 2
      from like [OF 2] obtain e where e: "e \<in> set ?F" and t: "timestamp_of e = timestamp_of d"
        and i: "int_timestamp e = int_timestamp d" by blast
      from e F_sub have "e \<in> set P" by blast
      with ints_P have "timestamp_of e = PInt (int_timestamp e)" by (rule bspec)
      with t i show ?thesis by simp
    qed
  qed
  show "T < int_timestamp (last ?N) \<and> last ?N \<in> set P
         \<and> set (map id_of ?N) \<subseteq> id_of ` set (prev @ D)
         \<and> (\<forall>d \<in> set (prev @ D). int_timestamp d \<le> int_timestamp (last ?N))
         \<and> (\<forall>d \<in> set (prev @ D). int_timestamp d = int_timestamp (last ?N)
              \<longrightarrow> id_of d \<in> set (map id_of ?N))"
    if ne: "?N \<noteq> []"
  proof -
    from ne have lN: "last ?N \<in> set ?N" by (rule last_in_set)
    then have lP: "last ?N \<in> set P" and lne: "int_timestamp (last ?N) \<noteq> T" by auto
    from ge_T lP have "T \<le> int_timestamp (last ?N)" by (rule bspec)
    with lne have lt: "T < int_timestamp (last ?N)" by simp
    have sN: "sorted (map int_timestamp ?N)" using sorted_P by (rule sorted_filter)
    have le_last: "int_timestamp e \<le> int_timestamp (last ?N)" if "e \<in> set P" for e
    proof (cases "int_timestamp e = T")
      case True
      with lt show ?thesis by simp
    next
      case False
      with that have "e \<in> set ?N" by simp
      then obtain i where i: "i < length ?N" and ei: "?N ! i = e"
        unfolding in_set_conv_nth by blast
      from ne have "last ?N = ?N ! (length ?N - 1)" by (rule last_conv_nth)
      moreover from i have "i \<le> length ?N - 1" by simp
      moreover from ne have "length ?N - 1 < length (map int_timestamp ?N)" by simp
      ultimately have "map int_timestamp ?N ! i \<le> map int_timestamp ?N ! (length ?N - 1)"
        using sN by (intro sorted_nth_mono) auto
      with i ei ne \<open>last ?N = ?N ! (length ?N - 1)\<close> show ?thesis by simp
    qed
    have N_sub: "set ?N \<subseteq> set ?F" by auto
    have idsN: "set (map id_of ?N) \<subseteq> id_of ` set (prev @ D)"
    proof -
      have "id_of ` set ?N \<subseteq> id_of ` set ?F" using N_sub by blast
      also have "id_of ` set ?F = set (map id_of D)" by (simp add: D_ids)
      finally show ?thesis by auto
    qed
    have le_all: "\<forall>d \<in> set (prev @ D). int_timestamp d \<le> int_timestamp (last ?N)"
    proof
      fix d assume "d \<in> set (prev @ D)"
      then consider "d \<in> set prev" | "d \<in> set D" by auto
      then show "int_timestamp d \<le> int_timestamp (last ?N)"
      proof cases
        case 1
        with le_T have "int_timestamp d \<le> T" by (rule bspec)
        with lt show ?thesis by simp
      next
        case 2
        from like [OF 2] obtain e where "e \<in> set ?F" and "int_timestamp e = int_timestamp d"
          by blast
        moreover from this F_sub have "e \<in> set P" by blast
        ultimately show ?thesis using le_last [of e] by simp
      qed
    qed
    have at_last: "\<forall>d \<in> set (prev @ D). int_timestamp d = int_timestamp (last ?N)
              \<longrightarrow> id_of d \<in> set (map id_of ?N)"
    proof (intro ballI impI)
      fix d assume dm: "d \<in> set (prev @ D)" and eq: "int_timestamp d = int_timestamp (last ?N)"
      from dm consider "d \<in> set prev" | "d \<in> set D" by auto
      then show "id_of d \<in> set (map id_of ?N)"
      proof cases
        case 1
        with le_T have "int_timestamp d \<le> T" by (rule bspec)
        with lt eq show ?thesis by simp
      next
        case 2
        from like [OF 2] obtain e where e: "e \<in> set ?F" and ide: "id_of e = id_of d"
          and tse: "int_timestamp e = int_timestamp d" by blast
        from tse eq lne have "int_timestamp e \<noteq> T" by simp
        with e have "e \<in> set ?N" by simp
        then have "id_of e \<in> set (map id_of ?N)" by simp
        with ide show ?thesis by simp
      qed
    qed
    from lt lP idsN le_all at_last show ?thesis by (intro conjI)
  qed
qed

lemma map_id_and_timestamp:
  "map id_and_timestamp xs = zip (map id_of xs) (map timestamp_of xs)"
  by (induction xs) (simp_all add: id_and_timestamp_def)

lemma id_and_timestamp_image:
  assumes "map id_of D = map id_of F" and "map timestamp_of D = map timestamp_of F"
  shows "id_and_timestamp ` set D = id_and_timestamp ` set F"
proof -
  from assms have "map id_and_timestamp D = map id_and_timestamp F"
    by (simp only: map_id_and_timestamp)
  then have "set (map id_and_timestamp D) = set (map id_and_timestamp F)" by (rule arg_cong)
  then show ?thesis by (simp only: set_map)
qed

lemma processed_Nil [simp]: "processed [] limit = []"
  by (simp add: processed_def py_slice_to_def)

text \<open>
  The invariant of a run of cycles for one event type. Either the last run has no timestamp
  for the event type (then no later cycle that returns accumulates a record of it), or it
  has an integer timestamp \<open>T\<close> and identifiers \<open>S\<close> such that every record delivered so far
  has a timestamp of at most \<open>T\<close>, and its identifier is in \<open>S\<close> when its timestamp is \<open>T\<close>.
\<close>

lemma fetch_cycles_event_type:
  assumes mem: "event_type \<in> set ALL_SUPPORTED_EVENT_TYPES"
  shows "fetch_cycles https tds lr limit api_version is_command = Some (Inr (outs, final)) \<Longrightarrow>
    \<forall>e \<in> set (concat (processed_batches https tds lr limit api_version is_command event_type)).
       timestamp_of e = PInt (int_timestamp e) \<Longrightarrow>
    sorted (map int_timestamp
       (concat (processed_batches https tds lr limit api_version is_command event_type))) \<Longrightarrow>
    \<forall>P \<in> set (processed_batches https tds lr limit api_version is_command event_type).
       distinct (map id_of P) \<Longrightarrow>
    \<forall>e \<in> set prev \<union>
          set (concat (processed_batches https tds lr limit api_version is_command event_type)).
     \<forall>e' \<in> set prev \<union>
          set (concat (processed_batches https tds lr limit api_version is_command event_type)).
       id_of e = id_of e' \<longrightarrow> int_timestamp e = int_timestamp e' \<Longrightarrow>
    \<forall>d \<in> set prev. timestamp_of d = PInt (int_timestamp d) \<Longrightarrow>
    distinct (map id_of prev) \<Longrightarrow>
    lr event_type = None \<or>
      (\<exists>T S. lr event_type = Some (Ts (PInt T)) \<and> saved_ids lr event_type = Inr S
         \<and> S \<subseteq> id_of ` set prev
         \<and> (\<forall>d \<in> set prev. int_timestamp d \<le> T)
         \<and> (\<forall>d \<in> set prev. int_timestamp d = T \<longrightarrow> id_of d \<in> S)
         \<and> (\<forall>e \<in> set (concat
               (processed_batches https tds lr limit api_version is_command event_type)).
               T \<le> int_timestamp e)) \<Longrightarrow>
    distinct (map id_of (prev @ filter (of_event_type event_type) (concat outs)))
    \<and> id_and_timestamp ` set (prev @ filter (of_event_type event_type) (concat outs)) =
        id_and_timestamp ` set prev \<union>
        id_and_timestamp ` set (concat
          (processed_batches https tds lr limit api_version is_command event_type))"
proof (induction https arbitrary: lr prev outs)
  case Nil
  from Nil.prems(1,7) show ?case by simp
next
  case (Cons http rest)
  let ?lim = "effective_limit limit"
  from Cons.prems(1) obtain evs nlr outs' where
    g: "get_all_events http tds lr limit api_version is_command = Some (Inr (evs, nlr))"
    and r: "fetch_cycles rest tds nlr limit api_version is_command = Some (Inr (outs', final))"
    and o: "outs = evs # outs'"
    by (auto split: option.splits sum.splits prod.splits)
  from get_all_events_event_type [OF g mem] obtain B where
    w: "while_loop http api_version event_type lr ?lim is_command [] 0 = Some (Inr B)"
    and cs: "if B = []
       then filter (of_event_type event_type) evs = []
            \<and> nlr event_type = None \<and> nlr (ids_key event_type) = None
       else \<exists>D plr D1.
              dedup_by_id lr B event_type ?lim = Inr (D, plr)
              \<and> populate_all tds D event_type = Inr D1
              \<and> filter (of_event_type event_type) evs = D1
              \<and> plr event_type \<noteq> None
              \<and> nlr event_type = plr event_type
              \<and> nlr (ids_key event_type) = plr (ids_key event_type)"
    by blast
  let ?P = "processed B ?lim"
  let ?Ps = "processed_batches rest tds nlr limit api_version is_command event_type"
  have Ps: "processed_batches (http # rest) tds lr limit api_version is_command event_type
      = ?P # ?Ps"
    by (simp add: accumulated_def w g)
  have cc: "concat (?P # ?Ps) = ?P @ concat ?Ps" by simp
  from Cons.prems(2) have ints_P: "\<forall>e \<in> set ?P. timestamp_of e = PInt (int_timestamp e)"
    and ints_rest: "\<forall>e \<in> set (concat ?Ps). timestamp_of e = PInt (int_timestamp e)"
    unfolding Ps cc by simp_all
  from Cons.prems(3) have "sorted (map int_timestamp ?P @ map int_timestamp (concat ?Ps))"
    unfolding Ps cc by (simp only: map_append)
  then have sorted_P: "sorted (map int_timestamp ?P)"
    and sorted_rest: "sorted (map int_timestamp (concat ?Ps))"
    and cross: "\<forall>x \<in> set ?P. \<forall>y \<in> set (concat ?Ps). int_timestamp x \<le> int_timestamp y"
    by (simp_all add: sorted_append)
  from Cons.prems(4) have dist_P: "distinct (map id_of ?P)"
    and dist_rest: "\<forall>P \<in> set ?Ps. distinct (map id_of P)"
    unfolding Ps by simp_all
  have stable: "int_timestamp a = int_timestamp b"
    if "a \<in> set prev \<union> set ?P \<union> set (concat ?Ps)"
      and "b \<in> set prev \<union> set ?P \<union> set (concat ?Ps)" and "id_of a = id_of b" for a b
    using Cons.prems(5) that unfolding Ps cc set_append Un_assoc by blast
  note ints_prev = Cons.prems(6)
  note dist_prev = Cons.prems(7)
  show ?case
  proof (cases "B = []")
    case True
    with cs have f: "filter (of_event_type event_type) evs = []"
      and dead: "nlr event_type = None" by simp_all
    from True have P: "?P = []" by simp
    have stable': "\<forall>e \<in> set prev \<union> set (concat ?Ps). \<forall>e' \<in> set prev \<union> set (concat ?Ps).
        id_of e = id_of e' \<longrightarrow> int_timestamp e = int_timestamp e'"
      using stable by blast
    from dead have state: "nlr event_type = None \<or>
      (\<exists>T S. nlr event_type = Some (Ts (PInt T)) \<and> saved_ids nlr event_type = Inr S
         \<and> S \<subseteq> id_of ` set prev
         \<and> (\<forall>d \<in> set prev. int_timestamp d \<le> T)
         \<and> (\<forall>d \<in> set prev. int_timestamp d = T \<longrightarrow> id_of d \<in> S)
         \<and> (\<forall>e \<in> set (concat ?Ps). T \<le> int_timestamp e))"
      by (rule disjI1)
    from Cons.IH [OF r ints_rest sorted_rest dist_rest stable' ints_prev dist_prev state]
    show ?thesis unfolding Ps o by (simp add: f P)
  next
    case False
    with cs obtain D plr D1 where
      d: "dedup_by_id lr B event_type ?lim = Inr (D, plr)"
      and pa: "populate_all tds D event_type = Inr D1"
      and f: "filter (of_event_type event_type) evs = D1"
      and ts: "plr event_type \<noteq> None"
      and n1: "nlr event_type = plr event_type"
      and n2: "nlr (ids_key event_type) = plr (ids_key event_type)"
      by auto
    from d obtain S0 where S0: "saved_ids lr event_type = Inr S0"
      using dedup_by_id_Inr_saved_ids by blast
    have "lr event_type \<noteq> None"
    proof
      assume none: "lr event_type = None"
      from d dedup_by_id_None [OF none S0, of B ?lim] have "plr = Map.empty"
        by (auto split: if_splits)
      with ts show False by simp
    qed
    with Cons.prems(8) obtain T S where
      lr: "lr event_type = Some (Ts (PInt T))" and S: "saved_ids lr event_type = Inr S"
      and S_sub: "S \<subseteq> id_of ` set prev"
      and le_T: "\<forall>d \<in> set prev. int_timestamp d \<le> T"
      and at_T: "\<forall>d \<in> set prev. int_timestamp d = T \<longrightarrow> id_of d \<in> S"
      and ge_all: "\<forall>e \<in> set (concat (?P # ?Ps)). T \<le> int_timestamp e"
      unfolding Ps by blast
    from ge_all have ge_T: "\<forall>e \<in> set ?P. T \<le> int_timestamp e" unfolding cc by simp
    let ?F = "filter (\<lambda>e. int_timestamp e \<noteq> T \<or> id_of e \<notin> S) ?P"
    let ?N = "filter (\<lambda>e. int_timestamp e \<noteq> T) ?P"
    note di = dedup_by_id_int [OF d lr S ints_P dist_P]
    from di(2) ts have ne: "?N \<noteq> []" by (auto split: if_splits)
    from di(2) ne have plr_ts: "plr event_type = Some (Ts (PInt (int_timestamp (last ?N))))"
      by simp
    from di(3) [OF ne] have plr_ids: "plr (ids_key event_type) = Some (Ids (map id_of ?N))" .
    from populate_all_Inr [OF pa] have "map id_of D1 = map id_of D"
      and "map timestamp_of D1 = map timestamp_of D" by simp_all
    with di(1) have D_ids: "map id_of D1 = map id_of ?F"
      and D_ts: "map timestamp_of D1 = map timestamp_of ?F"
      by (simp_all add: comp_def)
    have D_keys: "id_and_timestamp ` set D1 = id_and_timestamp ` set ?F"
      using D_ids D_ts by (rule id_and_timestamp_image)
    have stable0: "\<forall>e \<in> set prev \<union> set ?P. \<forall>e' \<in> set prev \<union> set ?P.
        id_of e = id_of e' \<longrightarrow> int_timestamp e = int_timestamp e'"
      using stable by blast
    note step = invariant_step [OF ints_prev ints_P sorted_P dist_P stable0 dist_prev S_sub
        le_T at_T ge_T D_ids D_keys]
    from step(4) [OF ne] have lt: "T < int_timestamp (last ?N)"
      and lP: "last ?N \<in> set ?P"
      and S_sub': "set (map id_of ?N) \<subseteq> id_of ` set (prev @ D1)"
      and le_T': "\<forall>d \<in> set (prev @ D1). int_timestamp d \<le> int_timestamp (last ?N)"
      and at_T': "\<forall>d \<in> set (prev @ D1). int_timestamp d = int_timestamp (last ?N)
                    \<longrightarrow> id_of d \<in> set (map id_of ?N)"
      by simp_all
    have like: "\<exists>a' \<in> set prev \<union> set ?P \<union> set (concat ?Ps).
          id_of a' = id_of a \<and> int_timestamp a' = int_timestamp a"
      if "a \<in> set (prev @ D1) \<union> set (concat ?Ps)" for a
    proof -
      from that consider "a \<in> set prev \<union> set (concat ?Ps)" | "a \<in> set D1" by auto
      then show ?thesis
      proof cases
        case 1
        then have "a \<in> set prev \<union> set ?P \<union> set (concat ?Ps)" by blast
        then show ?thesis by blast
      next
        case 2
        from same_id_and_timestamp [OF D_keys 2] obtain e where "e \<in> set ?F"
          and "id_of e = id_of a" and "int_timestamp e = int_timestamp a" by blast
        moreover from this have "e \<in> set prev \<union> set ?P \<union> set (concat ?Ps)" by simp
        ultimately show ?thesis by blast
      qed
    qed
    have stable': "\<forall>e \<in> set (prev @ D1) \<union> set (concat ?Ps).
        \<forall>e' \<in> set (prev @ D1) \<union> set (concat ?Ps).
        id_of e = id_of e' \<longrightarrow> int_timestamp e = int_timestamp e'"
    proof (intro ballI impI)
      fix a b assume a: "a \<in> set (prev @ D1) \<union> set (concat ?Ps)"
        and b: "b \<in> set (prev @ D1) \<union> set (concat ?Ps)" and eq: "id_of a = id_of b"
      from like [OF a] obtain a' where a': "a' \<in> set prev \<union> set ?P \<union> set (concat ?Ps)"
        "id_of a' = id_of a" "int_timestamp a' = int_timestamp a" by blast
      from like [OF b] obtain b' where b': "b' \<in> set prev \<union> set ?P \<union> set (concat ?Ps)"
        "id_of b' = id_of b" "int_timestamp b' = int_timestamp b" by blast
      from a'(2) b'(2) eq have "id_of a' = id_of b'" by simp
      from stable [OF a'(1) b'(1) this] a'(3) b'(3)
      show "int_timestamp a = int_timestamp b" by simp
    qed
    have ge_T': "\<forall>e \<in> set (concat ?Ps). int_timestamp (last ?N) \<le> int_timestamp e"
      using cross lP by blast
    have saved': "saved_ids nlr event_type = Inr (set (map id_of ?N))"
      by (simp add: saved_ids_def n2 plr_ids)
    have state: "nlr event_type = None \<or>
      (\<exists>T S. nlr event_type = Some (Ts (PInt T)) \<and> saved_ids nlr event_type = Inr S
         \<and> S \<subseteq> id_of ` set (prev @ D1)
         \<and> (\<forall>d \<in> set (prev @ D1). int_timestamp d \<le> T)
         \<and> (\<forall>d \<in> set (prev @ D1). int_timestamp d = T \<longrightarrow> id_of d \<in> S)
         \<and> (\<forall>e \<in> set (concat ?Ps). T \<le> int_timestamp e))"
    proof (intro disjI2 exI conjI)
      show "nlr event_type = Some (Ts (PInt (int_timestamp (last ?N))))"
        by (simp only: n1 plr_ts)
      show "saved_ids nlr event_type = Inr (set (map id_of ?N))" by (rule saved')
      show "set (map id_of ?N) \<subseteq> id_of ` set (prev @ D1)" by (rule S_sub')
      show "\<forall>d \<in> set (prev @ D1). int_timestamp d \<le> int_timestamp (last ?N)" by (rule le_T')
      show "\<forall>d \<in> set (prev @ D1). int_timestamp d = int_timestamp (last ?N)
              \<longrightarrow> id_of d \<in> set (map id_of ?N)" by (rule at_T')
      show "\<forall>e \<in> set (concat ?Ps). int_timestamp (last ?N) \<le> int_timestamp e" by (rule ge_T')
    qed
    from Cons.IH [OF r ints_rest sorted_rest dist_rest stable' step(3) step(1) state]
    have ih1: "distinct (map id_of ((prev @ D1) @ filter (of_event_type event_type) (concat outs')))"
      and ih2: "id_and_timestamp ` set ((prev @ D1) @ filter (of_event_type event_type) (concat outs'))
        = id_and_timestamp ` set (prev @ D1) \<union> id_and_timestamp ` set (concat ?Ps)"
      by simp_all
    have e1: "prev @ filter (of_event_type event_type) (concat outs) =
        (prev @ D1) @ filter (of_event_type event_type) (concat outs')"
      unfolding o by (simp add: f)
    have "id_and_timestamp ` set (prev @ D1) \<union> id_and_timestamp ` set (concat ?Ps) =
        id_and_timestamp ` set prev \<union> id_and_timestamp ` set (concat (?P # ?Ps))"
      unfolding step(2) cc by (simp only: set_append image_Un Un_assoc)
    with ih1 ih2 show ?thesis unfolding Ps e1 by simp
  qed
qed

section \<open>Delivery across cycles\<close>

text \<open>
  Claim C1, as the code has it, for the runs of cycles that return. The run starts from a
  last run seeded for a supported event type with an integer timestamp and no identifiers,
  and every cycle gets the last run that the cycle before returned. The records that
  \<^verbatim>\<open>dedup_by_id\<close> processes for the event type (in each cycle the oldest \<^verbatim>\<open>limit\<close> records of
  the accumulated batch, oldest first) have integer timestamps that are not below the seed
  and do not decrease along the run, pairwise different identifiers within a cycle, and one
  timestamp per identifier. Then no identifier is delivered twice for the event type, and the
  delivered records of the event type have exactly the identifier and timestamp pairs of the
  processed records. Records that the limit cuts off in every cycle are not among them, and
  a run in which a cycle raises delivers nothing from that cycle on.
\<close>

theorem C1_no_duplicates_across_cycles:
  assumes "fetch_cycles https tds last_run limit api_version is_command = Some (Inr (outs, final))"
      and "event_type \<in> set ALL_SUPPORTED_EVENT_TYPES"
      and "last_run event_type = Some (Ts (PInt t0))"
      and "saved_ids last_run event_type = Inr {}"
      and "\<forall>e \<in> set (concat
             (processed_batches https tds last_run limit api_version is_command event_type)).
             timestamp_of e = PInt (int_timestamp e) \<and> t0 \<le> int_timestamp e"
      and "sorted (map int_timestamp (concat
             (processed_batches https tds last_run limit api_version is_command event_type)))"
      and "\<forall>P \<in> set (processed_batches https tds last_run limit api_version is_command event_type).
             distinct (map id_of P)"
      and "\<forall>e \<in> set (concat
             (processed_batches https tds last_run limit api_version is_command event_type)).
           \<forall>e' \<in> set (concat
             (processed_batches https tds last_run limit api_version is_command event_type)).
             id_of e = id_of e' \<longrightarrow> timestamp_of e = timestamp_of e'"
  shows "distinct (map id_of (filter (of_event_type event_type) (concat outs)))
       \<and> id_and_timestamp ` set (filter (of_event_type event_type) (concat outs)) =
          id_and_timestamp ` set (concat
             (processed_batches https tds last_run limit api_version is_command event_type))"
proof -
  let ?Ps = "processed_batches https tds last_run limit api_version is_command event_type"
  from assms(5) have ints: "\<forall>e \<in> set (concat ?Ps). timestamp_of e = PInt (int_timestamp e)"
    and ge: "\<forall>e \<in> set (concat ?Ps). t0 \<le> int_timestamp e" by simp_all
  have stable: "\<forall>e \<in> set [] \<union> set (concat ?Ps). \<forall>e' \<in> set [] \<union> set (concat ?Ps).
      id_of e = id_of e' \<longrightarrow> int_timestamp e = int_timestamp e'"
  proof (intro ballI impI)
    fix a b assume "a \<in> set [] \<union> set (concat ?Ps)" and "b \<in> set [] \<union> set (concat ?Ps)"
      and eq: "id_of a = id_of b"
    then have "a \<in> set (concat ?Ps)" and "b \<in> set (concat ?Ps)" by simp_all
    with assms(8) eq have "timestamp_of a = timestamp_of b" by blast
    then show "int_timestamp a = int_timestamp b" by (rule int_timestamp_cong)
  qed
  have ints0: "\<forall>d \<in> set ([]::event list). timestamp_of d = PInt (int_timestamp d)" by simp
  have dist0: "distinct (map id_of ([]::event list))" by simp
  have state: "last_run event_type = None \<or>
      (\<exists>T S. last_run event_type = Some (Ts (PInt T)) \<and> saved_ids last_run event_type = Inr S
         \<and> S \<subseteq> id_of ` set []
         \<and> (\<forall>d \<in> set ([]::event list). int_timestamp d \<le> T)
         \<and> (\<forall>d \<in> set ([]::event list). int_timestamp d = T \<longrightarrow> id_of d \<in> S)
         \<and> (\<forall>e \<in> set (concat ?Ps). T \<le> int_timestamp e))"
    using assms(3,4) ge by auto
  from fetch_cycles_event_type [OF assms(2) assms(1) ints assms(6) assms(7) stable ints0 dist0
      state]
  show ?thesis by simp
qed

text \<open>
  A run of two cycles: the remote holds \<open>a\<close> and \<open>b\<close> (timestamp 10) in the first cycle and
  \<open>c\<close> (timestamp 11) as well in the second. The first cycle delivers \<open>a\<close> and \<open>b\<close>, the second
  only \<open>c\<close>.
\<close>

theorem C1_no_duplicates_across_cycles_witness:
  "fetch_cycles
     [single_page ''v2'' ''audit'' [mk_event ''b'' 10, mk_event ''a'' 10],
      single_page ''v2'' ''audit'' [mk_event ''c'' 11, mk_event ''b'' 10, mk_event ''a'' 10]]
     sample_datestring (checkpoint ''audit'' 5 []) (Some 1000) ''v2'' False =
   Some (Inr ([[delivered_as ''audit'' (PStr ''1970-01-01T00:00:00.000Z'') (mk_event ''a'' 10),
                delivered_as ''audit'' (PStr ''1970-01-01T00:00:00.000Z'') (mk_event ''b'' 10)],
               [delivered_as ''audit'' (PStr ''1970-01-01T00:00:00.000Z'') (mk_event ''c'' 11)]],
              checkpoint ''audit'' 11 [''c'']))
   \<and> distinct (map id_of (filter (of_event_type ''audit'')
        [delivered_as ''audit'' (PStr ''1970-01-01T00:00:00.000Z'') (mk_event ''a'' 10),
         delivered_as ''audit'' (PStr ''1970-01-01T00:00:00.000Z'') (mk_event ''b'' 10),
         delivered_as ''audit'' (PStr ''1970-01-01T00:00:00.000Z'') (mk_event ''c'' 11)]))
   \<and> id_and_timestamp ` set (filter (of_event_type ''audit'')
        [delivered_as ''audit'' (PStr ''1970-01-01T00:00:00.000Z'') (mk_event ''a'' 10),
         delivered_as ''audit'' (PStr ''1970-01-01T00:00:00.000Z'') (mk_event ''b'' 10),
         delivered_as ''audit'' (PStr ''1970-01-01T00:00:00.000Z'') (mk_event ''c'' 11)]) =
       id_and_timestamp ` set
        [mk_event ''a'' 10, mk_event ''b'' 10,
         mk_event ''a'' 10, mk_event ''b'' 10, mk_event ''c'' 11]"
proof -
  let ?h1 = "single_page ''v2'' ''audit'' [mk_event ''b'' 10, mk_event ''a'' 10]"
  let ?h2 = "single_page ''v2'' ''audit'' [mk_event ''c'' 11, mk_event ''b'' 10, mk_event ''a'' 10]"
  let ?d = "PStr ''1970-01-01T00:00:00.000Z''"
  have g1: "get_all_events ?h1 sample_datestring (checkpoint ''audit'' 5 []) (Some 1000) ''v2'' False
      = Some (Inr ([delivered_as ''audit'' ?d (mk_event ''a'' 10),
                    delivered_as ''audit'' ?d (mk_event ''b'' 10)],
                   checkpoint ''audit'' 10 [''a'', ''b'']))"
    by (simp add: cycle_defs scenario_defs)
  have g2: "get_all_events ?h2 sample_datestring (checkpoint ''audit'' 10 [''a'', ''b''])
      (Some 1000) ''v2'' False
      = Some (Inr ([delivered_as ''audit'' ?d (mk_event ''c'' 11)], checkpoint ''audit'' 11 [''c'']))"
    by (simp add: cycle_defs scenario_defs)
  have run: "fetch_cycles [?h1, ?h2] sample_datestring (checkpoint ''audit'' 5 []) (Some 1000)
      ''v2'' False =
    Some (Inr ([[delivered_as ''audit'' ?d (mk_event ''a'' 10),
                 delivered_as ''audit'' ?d (mk_event ''b'' 10)],
                [delivered_as ''audit'' ?d (mk_event ''c'' 11)]],
               checkpoint ''audit'' 11 [''c'']))"
    by (simp add: g1 g2)
  have Ps: "processed_batches [?h1, ?h2] sample_datestring (checkpoint ''audit'' 5 [])
      (Some 1000) ''v2'' False ''audit'' =
    [[mk_event ''a'' 10, mk_event ''b'' 10],
     [mk_event ''a'' 10, mk_event ''b'' 10, mk_event ''c'' 11]]"
    by (simp add: g1 g2 accumulated_def while_loop_single_page MAX_EVENTS_PAGE_SIZE_def
          processed_def py_slice_to_def)
  have mem: "''audit'' \<in> set ALL_SUPPORTED_EVENT_TYPES"
    by (simp add: ALL_SUPPORTED_EVENT_TYPES_def)
  have seed: "checkpoint ''audit'' 5 [] ''audit'' = Some (Ts (PInt 5))"
    "saved_ids (checkpoint ''audit'' 5 []) ''audit'' = Inr {}"
    by (simp_all add: checkpoint_def ids_key_def saved_ids_def)
  have ts: "timestamp_of (mk_event i t) = PInt t" "int_timestamp (mk_event i t) = t"
    "id_of (mk_event i t) = PStr i" for i t
    by (simp_all add: int_timestamp_def timestamp_of_def id_of_def mk_event_def py_get_def)
  have h5: "\<forall>e \<in> set (concat (processed_batches [?h1, ?h2] sample_datestring
      (checkpoint ''audit'' 5 []) (Some 1000) ''v2'' False ''audit'')).
      timestamp_of e = PInt (int_timestamp e) \<and> 5 \<le> int_timestamp e"
    unfolding Ps by (simp add: ts)
  have h6: "sorted (map int_timestamp (concat (processed_batches [?h1, ?h2] sample_datestring
      (checkpoint ''audit'' 5 []) (Some 1000) ''v2'' False ''audit'')))"
    unfolding Ps by (simp add: ts)
  have h7: "\<forall>P \<in> set (processed_batches [?h1, ?h2] sample_datestring
      (checkpoint ''audit'' 5 []) (Some 1000) ''v2'' False ''audit''). distinct (map id_of P)"
    unfolding Ps by (simp add: ts)
  have h8: "\<forall>e \<in> set (concat (processed_batches [?h1, ?h2] sample_datestring
      (checkpoint ''audit'' 5 []) (Some 1000) ''v2'' False ''audit'')).
    \<forall>e' \<in> set (concat (processed_batches [?h1, ?h2] sample_datestring
      (checkpoint ''audit'' 5 []) (Some 1000) ''v2'' False ''audit'')).
      id_of e = id_of e' \<longrightarrow> timestamp_of e = timestamp_of e'"
    unfolding Ps by (simp add: ts)
  from C1_no_duplicates_across_cycles [OF run mem seed h5 h6 h7 h8] run
  show ?thesis unfolding Ps by simp
qed

text \<open>
  The claim C1 as stated fails. In each cycle the remote returns the records \<open>a\<close> and \<open>b\<close>,
  both of timestamp 10. With the limit 1 the run of one cycle returns and delivers \<open>a\<close> only,
  and the run of two cycles raises \<^verbatim>\<open>KeyError\<close> in the second cycle, where the only processed
  record is \<open>a\<close> again: \<open>b\<close> is never delivered. With the limit 1000, when \<open>b\<close> reaches the
  remote after the first cycle has delivered \<open>a\<close>, the second cycle raises \<^verbatim>\<open>KeyError\<close> as well,
  since its processed records all have the saved timestamp.
\<close>

theorem C1_counterexample:
  "fetch_cycles
     [single_page ''v2'' ''audit'' [mk_event ''b'' 10, mk_event ''a'' 10]]
     sample_datestring [''audit'' \<mapsto> Ts (PInt 5), ''audit-ids'' \<mapsto> Ids []] (Some 1) ''v2'' False =
   Some (Inr ([[delivered_as ''audit'' (PStr ''1970-01-01T00:00:00.000Z'') (mk_event ''a'' 10)]],
              [''audit'' \<mapsto> Ts (PInt 10), ''audit-ids'' \<mapsto> Ids [PStr ''a'']]))
   \<and> fetch_cycles
     [single_page ''v2'' ''audit'' [mk_event ''b'' 10, mk_event ''a'' 10],
      single_page ''v2'' ''audit'' [mk_event ''b'' 10, mk_event ''a'' 10]]
     sample_datestring [''audit'' \<mapsto> Ts (PInt 5), ''audit-ids'' \<mapsto> Ids []] (Some 1) ''v2'' False =
   Some (Inl KeyError)
   \<and> fetch_cycles
     [single_page ''v2'' ''audit'' [mk_event ''a'' 10],
      single_page ''v2'' ''audit'' [mk_event ''b'' 10, mk_event ''a'' 10]]
     sample_datestring [''audit'' \<mapsto> Ts (PInt 5), ''audit-ids'' \<mapsto> Ids []] (Some 1000) ''v2'' False =
   Some (Inl KeyError)"
proof -
  let ?s0 = "[''audit'' \<mapsto> Ts (PInt 5), ''audit-ids'' \<mapsto> Ids []]"
  let ?s1 = "[''audit'' \<mapsto> Ts (PInt 10), ''audit-ids'' \<mapsto> Ids [PStr ''a'']]"
  let ?d = "PStr ''1970-01-01T00:00:00.000Z''"
  have a1: "get_all_events (single_page ''v2'' ''audit'' [mk_event ''b'' 10, mk_event ''a'' 10])
      sample_datestring ?s0 (Some 1) ''v2'' False =
      Some (Inr ([delivered_as ''audit'' ?d (mk_event ''a'' 10)], ?s1))"
    by (simp add: cycle_defs scenario_defs)
  have a2: "get_all_events (single_page ''v2'' ''audit'' [mk_event ''b'' 10, mk_event ''a'' 10])
      sample_datestring ?s1 (Some 1) ''v2'' False = Some (Inl KeyError)"
    by (simp add: cycle_defs scenario_defs)
  have b1: "get_all_events (single_page ''v2'' ''audit'' [mk_event ''a'' 10])
      sample_datestring ?s0 (Some 1000) ''v2'' False =
      Some (Inr ([delivered_as ''audit'' ?d (mk_event ''a'' 10)], ?s1))"
    by (simp add: cycle_defs scenario_defs)
  have b2: "get_all_events (single_page ''v2'' ''audit'' [mk_event ''b'' 10, mk_event ''a'' 10])
      sample_datestring ?s1 (Some 1000) ''v2'' False = Some (Inl KeyError)"
    by (simp add: cycle_defs scenario_defs)
  show ?thesis by (simp add: a1 a2 b1 b2)
qed


end
